theory Spec2Isabelle
  imports Main
begin

section \<open>The MangaPark downloader: data model\<close>

text \<open>
  The development embeds the class \<open>MangaParkDownloader\<close> of
  \<open>mangapark-dl/mangapark_dl.py\<close>. Every call that leaves the process (the Chrome
  driver, the file system, the HTTP client, the clock) is answered by an oracle of the
  record \<open>env\<close>; what the program does to the outside is recorded in the state: the
  files, the directories and a trace of events in the order they happen.

  Exceptions are the subclasses of Python's \<open>Exception\<close>, which is what every handler of
  the source catches. Logging is not modelled (the logger calls are taken not to raise),
  nor are the Chrome option strings, which have no effect on control flow.
\<close>

type_synonym url = string
type_synonym path = string
type_synonym bytes = string
type_synonym session = nat
type_synonym element = nat

datatype exn =
    TimeoutException
  | WebDriverException
  | AttributeError
  | RequestException
  | HTTPError
  | OSError

text \<open>
  One attempt of \<open>download_image\<close>, by the first statement of the \<open>try\<close> block that
  raises: \<open>requests.get\<close>, \<open>raise_for_status\<close>, \<open>open(save_path, 'wb')\<close> (the file is
  not touched), or the chunk loop after the file was created or truncated and the
  bytes shown were written. \<open>Written\<close> is the attempt that completes.
\<close>

datatype attempt_outcome =
    GetRaises
  | StatusRaises
  | OpenRaises
  | WriteRaises bytes
  | Written bytes

datatype event =
    ChromeLaunched session
  | DriverCreated session
  | QuitDriverCalled
  | DriverQuit session
  | Makedirs path
  | PageGet url
  | HttpGet url nat
  | Sleep nat

record env =
  chrome_result :: "exn + session"
  configure_result :: "exn option"
  quit_result :: "exn option"
  now :: int
  makedirs_result :: "path \<Rightarrow> exn option"
  navigate_result :: "url \<Rightarrow> exn option"
  wait_result :: "exn option"
  find_elements :: "string \<Rightarrow> exn + element list"
  get_attribute :: "element \<Rightarrow> string \<Rightarrow> exn + string option"
  fetch :: "url \<Rightarrow> path \<Rightarrow> nat \<Rightarrow> attempt_outcome"

text \<open>
  The fields \<open>download_path\<close>, \<open>headless\<close>, \<open>timeout\<close> and \<open>driver\<close> are those of the
  object; \<open>files\<close>, \<open>dirs\<close> and \<open>trace\<close> are the world it acts on.
\<close>

record state =
  download_path :: path
  headless :: bool
  timeout :: int
  driver :: "session option"
  files :: "path \<rightharpoonup> bytes"
  dirs :: "path set"
  trace :: "event list"

definition emit :: "event \<Rightarrow> state \<Rightarrow> state" where
  "emit e s = s\<lparr>trace := trace s @ [e]\<rparr>"

definition sleep :: "nat \<Rightarrow> state \<Rightarrow> state" where
  "sleep n s = emit (Sleep n) s"

section \<open>Image fetcher\<close>

text \<open>
  The \<open>try\<close> block of \<open>download_image\<close> for attempt \<open>k\<close>: \<open>Inr ()\<close> is the
  \<open>return True\<close>, \<open>Inl e\<close> the exception handed to the \<open>except\<close> clause.
\<close>

definition attempt_download :: "env \<Rightarrow> url \<Rightarrow> path \<Rightarrow> nat \<Rightarrow> state \<Rightarrow> (exn + unit) \<times> state" where
  "attempt_download E u p k s =
     (let s1 = emit (HttpGet u k) s in
      case fetch E u p k of
        GetRaises \<Rightarrow> (Inl RequestException, s1)
      | StatusRaises \<Rightarrow> (Inl HTTPError, s1)
      | OpenRaises \<Rightarrow> (Inl OSError, s1)
      | WriteRaises d \<Rightarrow> (Inl RequestException, s1\<lparr>files := (files s1)(p \<mapsto> d)\<rparr>)
      | Written d \<Rightarrow> (Inr (), s1\<lparr>files := (files s1)(p \<mapsto> d)\<rparr>))"

text \<open>
  \<open>for attempt in range(retries)\<close>, from the attempt \<open>k\<close> on. \<open>retries\<close> is a Python
  int and may be zero or negative: the range is then empty.
\<close>

function download_image_from :: "env \<Rightarrow> url \<Rightarrow> path \<Rightarrow> int \<Rightarrow> nat \<Rightarrow> state \<Rightarrow> bool \<times> state" where
  "download_image_from E u p retries k s =
     (if int k < retries then
        (case attempt_download E u p k s of
           (Inr _, s1) \<Rightarrow> (True, s1)
         | (Inl e, s1) \<Rightarrow>
             download_image_from E u p retries (Suc k)
               (if int k < retries - 1 then sleep (2 ^ k) s1 else s1))
      else (False, s))"
  by pat_completeness auto
termination
  by (relation "measure (\<lambda>(E, u, p, retries, k, s). nat (retries - int k))") auto

definition download_image :: "env \<Rightarrow> url \<Rightarrow> path \<Rightarrow> int \<Rightarrow> state \<Rightarrow> bool \<times> state" where
  "download_image E u p retries s = download_image_from E u p retries 0 s"

declare download_image_from.simps [simp del]

section \<open>File names\<close>

text \<open>
  \<open>str(n)\<close> for a natural number, \<open>str(i)\<close> for a Python int, the format
  \<open>{i:03d}\<close> (a minimum width of three, padded with zeros: wider numbers are not cut),
  and the file name \<open>f"page_{i:03d}.jpg"\<close>.
\<close>

definition digit_char :: "nat \<Rightarrow> char" where
  "digit_char d = char_of (48 + d)"

function str_nat :: "nat \<Rightarrow> string" where
  "str_nat n = (if n < 10 then [digit_char n] else str_nat (n div 10) @ [digit_char (n mod 10)])"
  by pat_completeness auto
termination
  by (relation "measure id") auto

declare str_nat.simps [simp del]

definition str_int :: "int \<Rightarrow> string" where
  "str_int i = (if i < 0 then CHR ''-'' # str_nat (nat (- i)) else str_nat (nat i))"

definition format_03d :: "nat \<Rightarrow> string" where
  "format_03d i = replicate (3 - length (str_nat i)) CHR ''0'' @ str_nat i"

definition page_filename :: "nat \<Rightarrow> string" where
  "page_filename i = ''page_'' @ format_03d i @ ''.jpg''"

text \<open>\<open>os.path.join\<close> of two components on a POSIX system.\<close>

definition os_path_join :: "path \<Rightarrow> path \<Rightarrow> path" where
  "os_path_join a b =
     (case b of
        c # cs \<Rightarrow>
          if c = CHR ''/'' then b
          else if a = [] \<or> last a = CHR ''/'' then a @ b
          else a @ ''/'' @ b
      | [] \<Rightarrow> if a = [] \<or> last a = CHR ''/'' then a else a @ ''/'')"

section \<open>Session lifecycle\<close>

text \<open>
  \<open>create_driver\<close>: \<open>webdriver.Chrome(...)\<close>, then the two timeout settings; an
  exception of either is logged and raised again.
\<close>

definition create_driver :: "env \<Rightarrow> state \<Rightarrow> (exn + session) \<times> state" where
  "create_driver E s =
     (case chrome_result E of
        Inl e \<Rightarrow> (Inl e, s)
      | Inr d \<Rightarrow>
          (let s1 = emit (ChromeLaunched d) s in
           case configure_result E of
             Some e \<Rightarrow> (Inl e, s1)
           | None \<Rightarrow> (Inr d, emit (DriverCreated d) s1)))"

text \<open>
  \<open>quit_driver\<close>: under \<open>if self.driver\<close>, \<open>self.driver.quit()\<close> in a \<open>try\<close> whose
  \<open>except Exception\<close> only logs and whose \<open>finally\<close> sets \<open>self.driver = None\<close>.
\<close>

definition quit_driver :: "env \<Rightarrow> state \<Rightarrow> (exn + unit) \<times> state" where
  "quit_driver E s =
     (let s0 = emit QuitDriverCalled s in
      case driver s0 of
        None \<Rightarrow> (Inr (), s0)
      | Some d \<Rightarrow>
          (let s1 = emit (DriverQuit d) s0 in
           case quit_result E of
             None \<Rightarrow> (Inr (), s1\<lparr>driver := None\<rparr>)
           | Some e \<Rightarrow> (Inr (), s1\<lparr>driver := None\<rparr>)))"

section \<open>Page scraper\<close>

definition starts_with :: "string \<Rightarrow> string \<Rightarrow> bool" where
  "starts_with t sub = (take (length sub) t = sub)"

text \<open>\<open>sub in t\<close> on Python strings.\<close>

fun contains :: "string \<Rightarrow> string \<Rightarrow> bool" where
  "contains [] sub = (sub = [])"
| "contains (c # cs) sub = (starts_with (c # cs) sub \<or> contains cs sub)"

text \<open>Truth value of an attribute: \<open>None\<close> and the empty string are false.\<close>

definition truthy :: "string option \<Rightarrow> bool" where
  "truthy a = (case a of None \<Rightarrow> False | Some t \<Rightarrow> t \<noteq> [])"

definition primary_selector :: string where
  "primary_selector = ''img[src*='mangapark']''"

definition reader_selector :: string where
  "reader_selector = ''.reader-main img''"

definition deferred_selector :: string where
  "deferred_selector = ''img[data-src]''"

text \<open>The three \<open>find_elements\<close> calls, each tried only when the one before found nothing.\<close>

definition select_images :: "env \<Rightarrow> exn + element list" where
  "select_images E =
     (case find_elements E primary_selector of
        Inl e \<Rightarrow> Inl e
      | Inr els1 \<Rightarrow>
          (case (if els1 = [] then find_elements E reader_selector else Inr els1) of
             Inl e \<Rightarrow> Inl e
           | Inr els2 \<Rightarrow>
               (if els2 = [] then find_elements E deferred_selector else Inr els2)))"

text \<open>\<open>img.get_attribute('src') or img.get_attribute('data-src')\<close>.\<close>

definition effective_src :: "env \<Rightarrow> element \<Rightarrow> exn + string option" where
  "effective_src E img =
     (case get_attribute E img ''src'' of
        Inl e \<Rightarrow> Inl e
      | Inr a \<Rightarrow> if truthy a then Inr a else get_attribute E img ''data-src'')"

text \<open>\<open>if src and 'mangapark' in src\<close>.\<close>

definition retained :: "string option \<Rightarrow> bool" where
  "retained src = (case src of None \<Rightarrow> False | Some t \<Rightarrow> t \<noteq> [] \<and> contains t ''mangapark'')"

fun collect_urls :: "env \<Rightarrow> element list \<Rightarrow> exn + url list" where
  "collect_urls E [] = Inr []"
| "collect_urls E (img # imgs) =
     (case effective_src E img of
        Inl e \<Rightarrow> Inl e
      | Inr src \<Rightarrow>
          (case collect_urls E imgs of
             Inl e \<Rightarrow> Inl e
           | Inr urls \<Rightarrow> Inr (if retained src then the src # urls else urls)))"

text \<open>
  The \<open>try\<close> block of \<open>get_chapter_images\<close>. \<open>self.driver.get\<close> on an object without
  a driver raises \<open>AttributeError\<close>.
\<close>

definition get_chapter_images_try :: "env \<Rightarrow> url \<Rightarrow> state \<Rightarrow> (exn + url list) \<times> state" where
  "get_chapter_images_try E chapter_url s =
     (case driver s of
        None \<Rightarrow> (Inl AttributeError, s)
      | Some d \<Rightarrow>
          (let s1 = emit (PageGet chapter_url) s in
           case navigate_result E chapter_url of
             Some e \<Rightarrow> (Inl e, s1)
           | None \<Rightarrow>
               (case wait_result E of
                  Some e \<Rightarrow> (Inl e, s1)
                | None \<Rightarrow>
                    (let s2 = sleep 3 s1 in
                     case select_images E of
                       Inl e \<Rightarrow> (Inl e, s2)
                     | Inr els \<Rightarrow>
                         (case collect_urls E els of
                            Inl e \<Rightarrow> (Inl e, s2)
                          | Inr urls \<Rightarrow> (Inr urls, s2))))))"

text \<open>The two handlers: \<open>except TimeoutException\<close> and \<open>except Exception\<close>.\<close>

definition get_chapter_images :: "env \<Rightarrow> url \<Rightarrow> state \<Rightarrow> (exn + url list) \<times> state" where
  "get_chapter_images E chapter_url s =
     (case get_chapter_images_try E chapter_url s of
        (Inr urls, s1) \<Rightarrow> (Inr urls, s1)
      | (Inl e, s1) \<Rightarrow>
          (if e = TimeoutException then (Inr [], s1) else (Inr [], s1)))"

section \<open>Chapter orchestrator\<close>

text \<open>
  The loop \<open>for i, image_url in enumerate(image_urls, 1)\<close> of \<open>download_chapter\<close>,
  with the count of successes; \<open>download_image\<close> is called with its default of three
  attempts.
\<close>

fun download_pages :: "env \<Rightarrow> path \<Rightarrow> (nat \<times> url) list \<Rightarrow> nat \<Rightarrow> state \<Rightarrow> nat \<times> state" where
  "download_pages E chapter_dir [] success_count s = (success_count, s)"
| "download_pages E chapter_dir ((i, image_url) # rest) success_count s =
     (let save_path = os_path_join chapter_dir (page_filename i);
          (ok, s1) = download_image E image_url save_path 3 s;
          s2 = sleep 1 s1
      in download_pages E chapter_dir rest (if ok then success_count + 1 else success_count) s2)"

text \<open>\<open>chapter_name\<close> when given and not empty, else \<open>f"chapter_{int(time.time())}"\<close>.\<close>

definition resolve_name :: "env \<Rightarrow> string option \<Rightarrow> string" where
  "resolve_name E chapter_name =
     (if truthy chapter_name then the chapter_name else ''chapter_'' @ str_int (now E))"

definition chapter_dir_of :: "env \<Rightarrow> state \<Rightarrow> string option \<Rightarrow> path" where
  "chapter_dir_of E s chapter_name = os_path_join (download_path s) (resolve_name E chapter_name)"

definition makedirs :: "env \<Rightarrow> path \<Rightarrow> state \<Rightarrow> (exn + unit) \<times> state" where
  "makedirs E d s =
     (let s1 = emit (Makedirs d) s in
      case makedirs_result E d of
        Some e \<Rightarrow> (Inl e, s1)
      | None \<Rightarrow> (Inr (), s1\<lparr>dirs := insert d (dirs s1)\<rparr>))"

text \<open>The \<open>try\<close> block of \<open>download_chapter\<close>.\<close>

definition download_chapter_try :: "env \<Rightarrow> url \<Rightarrow> string option \<Rightarrow> state \<Rightarrow> (exn + bool) \<times> state" where
  "download_chapter_try E chapter_url chapter_name s =
     (case create_driver E s of
        (Inl e, s1) \<Rightarrow> (Inl e, s1)
      | (Inr d, s1) \<Rightarrow>
          (let s2 = s1\<lparr>driver := Some d\<rparr>;
               chapter_dir = chapter_dir_of E s2 chapter_name
           in case makedirs E chapter_dir s2 of
                (Inl e, s3) \<Rightarrow> (Inl e, s3)
              | (Inr _, s3) \<Rightarrow>
                  (case get_chapter_images E chapter_url s3 of
                     (Inl e, s4) \<Rightarrow> (Inl e, s4)
                   | (Inr image_urls, s4) \<Rightarrow>
                       if image_urls = [] then (Inr False, s4)
                       else (case download_pages E chapter_dir (enumerate 1 image_urls) 0 s4 of
                               (success_count, s5) \<Rightarrow> (Inr (0 < success_count), s5)))))"

text \<open>
  \<open>download_chapter\<close>: the \<open>except Exception\<close> returns \<open>False\<close>; the \<open>finally\<close> runs
  \<open>quit_driver\<close> and then sleeps five seconds. An exception of the \<open>finally\<close> block
  would replace the result.
\<close>

definition download_chapter :: "env \<Rightarrow> url \<Rightarrow> string option \<Rightarrow> state \<Rightarrow> (exn + bool) \<times> state" where
  "download_chapter E chapter_url chapter_name s =
     (case download_chapter_try E chapter_url chapter_name s of
        (r, s1) \<Rightarrow>
          (let result = (case r of Inl e \<Rightarrow> False | Inr b \<Rightarrow> b) in
           case quit_driver E s1 of
             (Inl e, s2) \<Rightarrow> (Inl e, s2)
           | (Inr _, s2) \<Rightarrow> (Inr result, sleep 5 s2)))"

section \<open>Vocabulary of the properties\<close>

text \<open>What an attempt did to the destination file, and whether it completed.\<close>

fun is_written :: "attempt_outcome \<Rightarrow> bool" where
  "is_written (Written d) = True"
| "is_written _ = False"


fun written_bytes :: "attempt_outcome \<Rightarrow> bytes option" where
  "written_bytes (WriteRaises d) = Some d"
| "written_bytes (Written d) = Some d"
| "written_bytes _ = None"

text \<open>The bytes left by the last attempt of a sequence that opened the file, if any did.\<close>

fun last_write :: "attempt_outcome list \<Rightarrow> bytes option" where
  "last_write [] = None"
| "last_write (x # xs) = (case last_write xs of Some d \<Rightarrow> Some d | None \<Rightarrow> written_bytes x)"

text \<open>
  The schedule of a call whose attempts all fail: attempt \<open>k\<close>, then a pause of
  \<open>2 ^ k\<close> seconds unless \<open>k\<close> is the last attempt.
\<close>

definition backoff_step :: "url \<Rightarrow> int \<Rightarrow> nat \<Rightarrow> event list" where
  "backoff_step u retries k = HttpGet u k # (if int k < retries - 1 then [Sleep (2 ^ k)] else [])"

definition backoff_events :: "url \<Rightarrow> int \<Rightarrow> nat \<Rightarrow> event list" where
  "backoff_events u retries k = concat (map (backoff_step u retries) [k..<nat retries])"

text \<open>The pause that immediately precedes attempt \<open>k\<close> for \<open>u\<close> in a trace, if there is one.\<close>

fun delay_before :: "url \<Rightarrow> nat \<Rightarrow> event list \<Rightarrow> nat option" where
  "delay_before u k [] = None"
| "delay_before u k [e] = None"
| "delay_before u k (e # e' # es) =
     (if e' = HttpGet u k then (case e of Sleep d \<Rightarrow> Some d | _ \<Rightarrow> None)
      else delay_before u k (e' # es))"

fun is_attempt :: "event \<Rightarrow> bool" where
  "is_attempt (HttpGet u k) = True"
| "is_attempt _ = False"

text \<open>Events of scraping and fetching, as opposed to those of the session and of directories.\<close>

fun work_event :: "event \<Rightarrow> bool" where
  "work_event (PageGet u) = True"
| "work_event (HttpGet u k) = True"
| "work_event (Sleep n) = True"
| "work_event _ = False"

fun is_quit :: "event \<Rightarrow> bool" where
  "is_quit (DriverQuit d) = True"
| "is_quit _ = False"

fun is_acquire :: "event \<Rightarrow> bool" where
  "is_acquire (DriverCreated d) = True"
| "is_acquire _ = False"

fun is_makedirs :: "event \<Rightarrow> bool" where
  "is_makedirs (Makedirs d) = True"
| "is_makedirs _ = False"

definition release_calls :: "event list \<Rightarrow> nat" where
  "release_calls es = count_list es QuitDriverCalled"

definition teardown_count :: "event list \<Rightarrow> nat" where
  "teardown_count es = length (filter is_quit es)"

definition acquisition_count :: "event list \<Rightarrow> nat" where
  "acquisition_count es = length (filter is_acquire es)"

definition page_path :: "path \<Rightarrow> nat \<Rightarrow> path" where
  "page_path chapter_dir i = os_path_join chapter_dir (page_filename i)"

text \<open>A page is fetched when one of its three attempts completes.\<close>

definition page_ok :: "env \<Rightarrow> path \<Rightarrow> nat \<times> url \<Rightarrow> bool" where
  "page_ok E chapter_dir iu =
     (case iu of (i, u) \<Rightarrow>
        is_written (fetch E u (page_path chapter_dir i) 0)
      \<or> is_written (fetch E u (page_path chapter_dir i) 1)
      \<or> is_written (fetch E u (page_path chapter_dir i) 2))"


text \<open>The files after an attempt with the given outcome on the destination \<open>p\<close>.\<close>

definition file_after :: "attempt_outcome \<Rightarrow> path \<Rightarrow> (path \<rightharpoonup> bytes) \<Rightarrow> (path \<rightharpoonup> bytes)" where
  "file_after out p fs = (case written_bytes out of None \<Rightarrow> fs | Some d \<Rightarrow> fs(p \<mapsto> d))"

text \<open>The state after a failed attempt \<open>k\<close> and the pause that follows it, if one does.\<close>

definition after_attempt :: "env \<Rightarrow> url \<Rightarrow> path \<Rightarrow> int \<Rightarrow> nat \<Rightarrow> state \<Rightarrow> state" where
  "after_attempt E u p retries k s =
     (let s1 = snd (attempt_download E u p k s)
      in if int k < retries - 1 then sleep (2 ^ k) s1 else s1)"

text \<open>The address an element resolves to when no attribute read raises.\<close>

definition effective_url :: "env \<Rightarrow> element \<Rightarrow> string option" where
  "effective_url E img = (case effective_src E img of Inl e \<Rightarrow> None | Inr a \<Rightarrow> a)"

text \<open>The number a string of decimal digits denotes.\<close>

definition decimal_value :: "string \<Rightarrow> nat" where
  "decimal_value t = foldl (\<lambda>a c. 10 * a + (of_char c - 48)) 0 t"

text \<open>The states the \<open>try\<close> block of \<open>download_chapter\<close> goes through once a session is obtained.\<close>

definition st_session :: "session \<Rightarrow> state \<Rightarrow> state" where
  "st_session d s = (emit (DriverCreated d) (emit (ChromeLaunched d) s))\<lparr>driver := Some d\<rparr>"

definition st_directory :: "env \<Rightarrow> string option \<Rightarrow> session \<Rightarrow> state \<Rightarrow> state" where
  "st_directory E n d s = snd (makedirs E (chapter_dir_of E s n) (st_session d s))"

definition st_scraped :: "env \<Rightarrow> url \<Rightarrow> string option \<Rightarrow> session \<Rightarrow> state \<Rightarrow> state" where
  "st_scraped E u n d s = snd (get_chapter_images E u (st_directory E n d s))"

section \<open>Sample environments\<close>

text \<open>A downloader as \<open>__init__\<close> leaves it, on a disk that holds the download directory only.\<close>

definition sample_state :: state where
  "sample_state =
     \<lparr>download_path = ''/downloads'', headless = True, timeout = 30, driver = None,
      files = Map.empty, dirs = {''/downloads''}, trace = []\<rparr>"

definition sample_src :: "element \<Rightarrow> string" where
  "sample_src e = ''https://img.mangapark.io/c1/'' @ str_nat e @ ''.jpg''"

text \<open>Five images matched by the primary selector; every request answers with a body.\<close>

definition env_ok :: env where
  "env_ok =
     \<lparr>chrome_result = Inr 7, configure_result = None, quit_result = None, now = 1700000000,
      makedirs_result = (\<lambda>d. None), navigate_result = (\<lambda>u. None), wait_result = None,
      find_elements = (\<lambda>sel. if sel = primary_selector then Inr [1, 2, 3, 4, 5] else Inr []),
      get_attribute = (\<lambda>e a. if a = ''src'' then Inr (Some (sample_src e)) else Inr None),
      fetch = (\<lambda>u p k. Written (''image of '' @ u))\<rparr>"

definition env_chrome_fails :: env where
  "env_chrome_fails = env_ok\<lparr>chrome_result := Inl WebDriverException\<rparr>"

definition env_requests_fail :: env where
  "env_requests_fail = env_ok\<lparr>fetch := (\<lambda>u p k. GetRaises)\<rparr>"




text \<open>
  Pages whose images the primary selector misses and the reader container holds: served
  from another host, or lazily loaded with the address in \<open>data-src\<close>.
\<close>

definition env_other_host :: env where
  "env_other_host =
     env_ok\<lparr>find_elements := (\<lambda>sel. if sel = reader_selector then Inr [1, 2, 3, 4] else Inr []),
            get_attribute := (\<lambda>e a. if a = ''src''
                                then Inr (Some (''https://cdn.example.org/'' @ str_nat e @ ''.jpg''))
                                else Inr None)\<rparr>"

definition env_lazy :: env where
  "env_lazy =
     env_ok\<lparr>find_elements := (\<lambda>sel. if sel = reader_selector then Inr [1, 2, 3, 4] else Inr []),
            get_attribute := (\<lambda>e a. if a = ''data-src'' then Inr (Some (sample_src e)) else Inr None)\<rparr>"

definition env_timeout :: env where
  "env_timeout = env_ok\<lparr>wait_result := Some TimeoutException\<rparr>"

definition env_no_images :: env where
  "env_no_images = env_ok\<lparr>find_elements := (\<lambda>sel. Inr [])\<rparr>"

definition env_unreachable :: env where
  "env_unreachable = env_ok\<lparr>navigate_result := (\<lambda>u. Some WebDriverException)\<rparr>"

definition env_no_selector :: env where
  "env_no_selector = env_ok\<lparr>find_elements := (\<lambda>sel. Inl WebDriverException)\<rparr>"

definition env_stale :: env where
  "env_stale =
     env_ok\<lparr>get_attribute := (\<lambda>e a. if e = 3 then Inl WebDriverException
                                   else if a = ''src'' then Inr (Some (sample_src e)) else Inr None)\<rparr>"

text \<open>The sample downloader while a chapter is being processed.\<close>

definition active_state :: state where
  "active_state = sample_state\<lparr>driver := Some 7\<rparr>"

section \<open>Lemmas on the image fetcher\<close>


lemma emit_simps [simp]:
  "trace (emit e s) = trace s @ [e]" "files (emit e s) = files s" "dirs (emit e s) = dirs s"
  "driver (emit e s) = driver s" "download_path (emit e s) = download_path s"
  by (simp_all add: emit_def)

lemma sleep_simps [simp]:
  "trace (sleep n s) = trace s @ [Sleep n]" "files (sleep n s) = files s" "dirs (sleep n s) = dirs s"
  "driver (sleep n s) = driver s" "download_path (sleep n s) = download_path s"
  by (simp_all add: sleep_def)

lemma attempt_download_state:
  "snd (attempt_download E u p k s) =
     (emit (HttpGet u k) s)\<lparr>files := file_after (fetch E u p k) p (files s)\<rparr>"
  by (cases "fetch E u p k") (simp_all add: attempt_download_def Let_def file_after_def emit_def)

lemma attempt_download_result:
  "(\<exists>e. fst (attempt_download E u p k s) = Inl e) = (\<not> is_written (fetch E u p k))"
  by (cases "fetch E u p k") (simp_all add: attempt_download_def Let_def)

lemma download_image_from_done:
  "\<not> int k < retries \<Longrightarrow> download_image_from E u p retries k s = (False, s)"
  by (simp add: download_image_from.simps)

lemma download_image_from_success:
  "int k < retries \<Longrightarrow> is_written (fetch E u p k) \<Longrightarrow>
   download_image_from E u p retries k s = (True, snd (attempt_download E u p k s))"
  using attempt_download_result [of E u p k s]
  by (cases "attempt_download E u p k s")
     (auto simp: download_image_from.simps [of E u p retries k s] split: sum.splits)

lemma download_image_from_retry:
  "int k < retries \<Longrightarrow> \<not> is_written (fetch E u p k) \<Longrightarrow>
   download_image_from E u p retries k s =
     download_image_from E u p retries (Suc k) (after_attempt E u p retries k s)"
  using attempt_download_result [of E u p k s]
  by (cases "attempt_download E u p k s")
     (auto simp: download_image_from.simps [of E u p retries k s] after_attempt_def Let_def
           split: sum.splits)

lemma after_attempt_simps [simp]:
  "files (after_attempt E u p retries k s) = file_after (fetch E u p k) p (files s)"
  "dirs (after_attempt E u p retries k s) = dirs s"
  "driver (after_attempt E u p retries k s) = driver s"
  "download_path (after_attempt E u p retries k s) = download_path s"
  "trace (after_attempt E u p retries k s) = trace s @ backoff_step u retries k"
  by (simp_all add: after_attempt_def Let_def attempt_download_state backoff_step_def)

lemma attempt_simps [simp]:
  "files (snd (attempt_download E u p k s)) = file_after (fetch E u p k) p (files s)"
  "dirs (snd (attempt_download E u p k s)) = dirs s"
  "driver (snd (attempt_download E u p k s)) = driver s"
  "download_path (snd (attempt_download E u p k s)) = download_path s"
  "trace (snd (attempt_download E u p k s)) = trace s @ [HttpGet u k]"
  by (simp_all add: attempt_download_state)

lemma file_after_other [simp]: "q \<noteq> p \<Longrightarrow> file_after out p fs q = fs q"
  by (simp add: file_after_def split: option.splits)

lemma work_backoff_step [simp]: "list_all work_event (backoff_step u retries k)"
  by (simp add: backoff_step_def)

text \<open>What \<open>download_image\<close> never touches.\<close>

lemma download_image_from_frame:
  "driver (snd (download_image_from E u p retries k s)) = driver s
   \<and> dirs (snd (download_image_from E u p retries k s)) = dirs s
   \<and> download_path (snd (download_image_from E u p retries k s)) = download_path s
   \<and> (\<forall>q. q \<noteq> p \<longrightarrow> files (snd (download_image_from E u p retries k s)) q = files s q)
   \<and> (\<exists>ev. trace (snd (download_image_from E u p retries k s)) = trace s @ ev \<and> list_all work_event ev)"
proof (induction "nat (retries - int k)" arbitrary: k s)
  case 0
  then have "\<not> int k < retries" by simp
  then show ?case by (simp add: download_image_from_done)
next
  case (Suc n)
  then have lt: "int k < retries" and n: "n = nat (retries - int (Suc k))" by simp_all
  show ?case
  proof (cases "is_written (fetch E u p k)")
    case True
    then show ?thesis using lt by (simp add: download_image_from_success)
  next
    case False
    from Suc.hyps(1) [OF n, of "after_attempt E u p retries k s"]
    show ?thesis using lt False
      by (auto simp: download_image_from_retry)
  qed
qed

lemma download_image_from_result:
  "fst (download_image_from E u p retries k s) =
     (\<exists>j. k \<le> j \<and> int j < retries \<and> is_written (fetch E u p j))"
proof (induction "nat (retries - int k)" arbitrary: k s)
  case 0
  then have "\<not> int k < retries" by simp
  then show ?case by (auto simp: download_image_from_done)
next
  case (Suc n)
  then have lt: "int k < retries" and n: "n = nat (retries - int (Suc k))" by simp_all
  show ?case
  proof (cases "is_written (fetch E u p k)")
    case True
    then show ?thesis using lt by (auto simp: download_image_from_success)
  next
    case False
    have "(\<exists>j. Suc k \<le> j \<and> int j < retries \<and> is_written (fetch E u p j))
        = (\<exists>j. k \<le> j \<and> int j < retries \<and> is_written (fetch E u p j))"
      using False by (metis Suc_leD Suc_leI le_neq_implies_less)
    with Suc.hyps(1) [OF n, of "after_attempt E u p retries k s"]
    show ?thesis using lt False
      by (simp add: download_image_from_retry)
  qed
qed


lemma download_image_from_all_fail:
  assumes "\<forall>j. k \<le> j \<and> int j < retries \<longrightarrow> \<not> is_written (fetch E u p j)"
  shows "fst (download_image_from E u p retries k s) = False
       \<and> trace (snd (download_image_from E u p retries k s)) = trace s @ backoff_events u retries k
       \<and> files (snd (download_image_from E u p retries k s)) =
           (case last_write (map (fetch E u p) [k..<nat retries]) of
              None \<Rightarrow> files s | Some d \<Rightarrow> (files s)(p \<mapsto> d))"
  using assms
proof (induction "nat (retries - int k)" arbitrary: k s)
  case 0
  then have "\<not> int k < retries" by simp
  then show ?case by (simp add: download_image_from_done backoff_events_def)
next
  case (Suc n)
  then have lt: "int k < retries" and n: "n = nat (retries - int (Suc k))" by simp_all
  have nw: "\<not> is_written (fetch E u p k)" using Suc.prems lt by simp
  have rest: "\<forall>j. Suc k \<le> j \<and> int j < retries \<longrightarrow> \<not> is_written (fetch E u p j)"
    using Suc.prems by simp
  have up: "[k..<nat retries] = k # [Suc k..<nat retries]"
    using lt by (simp add: upt_conv_Cons)
  from Suc.hyps(1) [OF n rest, of "after_attempt E u p retries k s"]
  show ?case using lt nw
    by (auto simp: download_image_from_retry up backoff_events_def file_after_def
             split: option.splits)
qed

section \<open>Lemmas on the backoff schedule\<close>

lemma backoff_events_Cons:
  "int k < retries \<Longrightarrow>
   backoff_events u retries k = backoff_step u retries k @ backoff_events u retries (Suc k)"
  by (simp add: backoff_events_def upt_conv_Cons)

lemma backoff_events_Nil: "\<not> int k < retries \<Longrightarrow> backoff_events u retries k = []"
  by (simp add: backoff_events_def)

lemma backoff_events_pause:
  "int (Suc k) < retries \<Longrightarrow>
   backoff_events u retries k = HttpGet u k # Sleep (2 ^ k) # backoff_events u retries (Suc k)"
  by (simp add: backoff_events_Cons backoff_step_def)

lemma backoff_events_last:
  "int k < retries \<Longrightarrow> \<not> int (Suc k) < retries \<Longrightarrow> backoff_events u retries k = [HttpGet u k]"
  by (simp add: backoff_events_Cons backoff_events_Nil backoff_step_def)

lemma backoff_events_head:
  "int k < retries \<Longrightarrow> \<exists>es. backoff_events u retries k = HttpGet u k # es"
  by (simp add: backoff_events_Cons backoff_step_def)

lemma attempts_backoff_events:
  "length (filter is_attempt (backoff_events u retries k)) = nat retries - k"
proof (induction "nat retries - k" arbitrary: k)
  case 0
  then show ?case by (simp add: backoff_events_def)
next
  case (Suc n)
  then have lt: "int k < retries" and n: "n = nat retries - Suc k" by linarith+
  from Suc.hyps(1) [OF n] show ?case
    using lt Suc.hyps(2) by (simp add: backoff_events_Cons backoff_step_def)
qed

lemma delay_before_skip:
  "B = HttpGet u i # es \<Longrightarrow> i \<noteq> j \<Longrightarrow>
   delay_before u j (HttpGet u k # Sleep d # B) = delay_before u j B"
  by simp

lemma delay_before_hit:
  "B = HttpGet u j # es \<Longrightarrow> delay_before u j (HttpGet u k # Sleep d # B) = Some d"
  by simp

lemma delay_before_backoff_later:
  "k \<le> m \<Longrightarrow> int (Suc m) < retries \<Longrightarrow>
   delay_before u (Suc m) (backoff_events u retries k) = Some (2 ^ m)"
proof (induction "m - k" arbitrary: k)
  case 0
  then have km: "k = m" by simp
  obtain es where es: "backoff_events u retries (Suc m) = HttpGet u (Suc m) # es"
    using backoff_events_head [of "Suc m" retries u] "0.prems" by blast
  show ?case
    unfolding km backoff_events_pause [OF "0.prems"(2)] by (rule delay_before_hit [OF es])
next
  case (Suc n)
  then have lt: "Suc k \<le> m" and n: "n = m - Suc k" by simp_all
  have p: "int (Suc k) < retries" using lt Suc.prems by simp
  obtain es where es: "backoff_events u retries (Suc k) = HttpGet u (Suc k) # es"
    using backoff_events_head [of "Suc k" retries u] p by blast
  have ne: "Suc k \<noteq> Suc m" using lt by simp
  show ?case
    unfolding backoff_events_pause [OF p] delay_before_skip [OF es ne]
    by (rule Suc.hyps(1) [OF n lt Suc.prems(2)])
qed

lemma delay_before_first:
  "B = HttpGet u i # es \<Longrightarrow> j < i \<Longrightarrow> delay_before u j (HttpGet u k # Sleep d # B) = delay_before u j B"
  by simp

lemma delay_before_backoff_earlier:
  "j \<le> k \<Longrightarrow> delay_before u j (backoff_events u retries k) = None"
proof (induction "nat retries - k" arbitrary: k)
  case 0
  then have "\<not> int k < retries" by linarith
  then show ?case by (simp add: backoff_events_Nil)
next
  case (Suc n)
  then have lt: "int k < retries" and n: "n = nat retries - Suc k" by linarith+
  show ?case
  proof (cases "int (Suc k) < retries")
    case False
    then show ?thesis using lt by (simp add: backoff_events_last)
  next
    case True
    obtain es where es: "backoff_events u retries (Suc k) = HttpGet u (Suc k) # es"
      using backoff_events_head [of "Suc k" retries u] True by blast
    have jk: "j < Suc k" "j \<le> Suc k" using Suc.prems by simp_all
    show ?thesis
      unfolding backoff_events_pause [OF True] delay_before_first [OF es jk(1)]
      by (rule Suc.hyps(1) [OF n jk(2)])
  qed
qed

lemma last_backoff_events:
  "int k < retries \<Longrightarrow> last (backoff_events u retries k) = HttpGet u (nat retries - 1)"
proof (induction "nat retries - k" arbitrary: k)
  case 0
  then show ?case by linarith
next
  case (Suc n)
  then have n: "n = nat retries - Suc k" by linarith
  show ?case
  proof (cases "int (Suc k) < retries")
    case False
    then have "k = nat retries - 1" using Suc.prems by linarith
    then show ?thesis using False Suc.prems by (simp add: backoff_events_last)
  next
    case True
    obtain es where es: "backoff_events u retries (Suc k) = HttpGet u (Suc k) # es"
      using backoff_events_head [of "Suc k" retries u] True by auto
    have "last (backoff_events u retries k) = last (backoff_events u retries (Suc k))"
      unfolding backoff_events_pause [OF True] by (simp add: es)
    with Suc.hyps(1) [OF n True] show ?thesis by simp
  qed
qed


section \<open>Lemmas on the page scraper\<close>

lemma get_chapter_images_try_frame:
  "driver (snd (get_chapter_images_try E u s)) = driver s
   \<and> dirs (snd (get_chapter_images_try E u s)) = dirs s
   \<and> files (snd (get_chapter_images_try E u s)) = files s
   \<and> download_path (snd (get_chapter_images_try E u s)) = download_path s
   \<and> (\<exists>ev. trace (snd (get_chapter_images_try E u s)) = trace s @ ev \<and> list_all work_event ev)"
  by (simp add: get_chapter_images_try_def Let_def split: option.splits sum.splits)

lemma get_chapter_images_snd:
  "snd (get_chapter_images E u s) = snd (get_chapter_images_try E u s)"
  by (cases "get_chapter_images_try E u s") (simp add: get_chapter_images_def split: sum.splits)

lemma get_chapter_images_fst:
  "fst (get_chapter_images E u s) =
     (case fst (get_chapter_images_try E u s) of Inl e \<Rightarrow> Inr [] | Inr urls \<Rightarrow> Inr urls)"
  by (cases "get_chapter_images_try E u s") (simp add: get_chapter_images_def split: sum.splits)

lemma get_chapter_images_frame:
  "driver (snd (get_chapter_images E u s)) = driver s
   \<and> dirs (snd (get_chapter_images E u s)) = dirs s
   \<and> files (snd (get_chapter_images E u s)) = files s
   \<and> download_path (snd (get_chapter_images E u s)) = download_path s
   \<and> (\<exists>ev. trace (snd (get_chapter_images E u s)) = trace s @ ev \<and> list_all work_event ev)"
  unfolding get_chapter_images_snd by (rule get_chapter_images_try_frame)

lemma get_chapter_images_total:
  "\<exists>urls. fst (get_chapter_images E u s) = Inr urls"
  by (simp add: get_chapter_images_fst split: sum.splits)

text \<open>The list found depends on the state only through the presence of a driver.\<close>

lemma get_chapter_images_try_state:
  "driver s \<noteq> None \<Longrightarrow> driver t \<noteq> None \<Longrightarrow>
   fst (get_chapter_images_try E u s) = fst (get_chapter_images_try E u t)"
  by (auto simp: get_chapter_images_try_def Let_def split: option.splits sum.splits)

lemma get_chapter_images_state:
  "driver s \<noteq> None \<Longrightarrow> driver t \<noteq> None \<Longrightarrow>
   fst (get_chapter_images E u s) = fst (get_chapter_images E u t)"
  by (simp add: get_chapter_images_fst get_chapter_images_try_state [of s t])

lemma collect_urls_no_raise:
  "\<forall>img\<in>set els. \<exists>a. effective_src E img = Inr a \<Longrightarrow>
   collect_urls E els =
     Inr (map (\<lambda>img. the (effective_url E img)) (filter (\<lambda>img. retained (effective_url E img)) els))"
  by (induction els) (auto simp: effective_url_def)

lemma sample_select [simp]:
  "select_images env_ok = Inr [1, 2, 3, 4, 5]"
  "select_images env_stale = Inr [1, 2, 3, 4, 5]"
  "select_images env_no_selector = Inl WebDriverException"
  "select_images env_other_host = Inr [1, 2, 3, 4]"
  "select_images env_lazy = Inr [1, 2, 3, 4]"
  "select_images env_no_images = Inr []"
  by (simp_all add: select_images_def env_ok_def env_stale_def env_no_selector_def
        env_other_host_def env_lazy_def env_no_images_def
        primary_selector_def reader_selector_def deferred_selector_def)

lemma str_nat_digit: "n < 10 \<Longrightarrow> str_nat n = [digit_char n]"
  by (simp add: str_nat.simps)

lemma starts_with_append: "starts_with t sub \<Longrightarrow> starts_with (t @ r) sub"
proof -
  assume a: "starts_with t sub"
  then have "length (take (length sub) t) = length sub" by (simp add: starts_with_def)
  then have "length sub \<le> length t" by simp
  then show ?thesis using a by (simp add: starts_with_def)
qed

lemma contains_Nil: "contains t []"
  by (cases t) (simp_all add: starts_with_def)

lemma contains_append_right: "contains t sub \<Longrightarrow> contains (t @ r) sub"
proof (induction t)
  case Nil
  then show ?case by (simp add: contains_Nil)
next
  case (Cons c cs)
  then show ?case using starts_with_append [of "c # cs" sub r] by auto
qed

lemma contains_append_left: "contains t sub \<Longrightarrow> contains (r @ t) sub"
  by (induction r) auto

lemma sample_src_retained: "retained (Some (sample_src e))"
proof -
  have "contains ''mangapark'' ''mangapark''" by (simp add: starts_with_def)
  then have "contains (''https://img.'' @ ''mangapark'' @ (''.io/c1/'' @ str_nat e @ ''.jpg'')) ''mangapark''"
    by (intro contains_append_left contains_append_right)
  then show ?thesis by (simp add: retained_def sample_src_def)
qed

section \<open>Lemmas on file names\<close>

lemma digit_value: "d < 10 \<Longrightarrow> of_char (digit_char d) - 48 = d"
  by (simp add: digit_char_def)

lemma decimal_value_snoc:
  "decimal_value (t @ [c]) = 10 * decimal_value t + (of_char c - 48)"
  by (simp add: decimal_value_def)

lemma decimal_value_str_nat: "decimal_value (str_nat n) = n"
proof (induction n rule: str_nat.induct)
  case (1 n)
  show ?case
  proof (cases "n < 10")
    case True
    then show ?thesis
      using decimal_value_snoc [of "[]" "digit_char n"]
      by (simp add: str_nat.simps [of n] digit_value decimal_value_def)
  next
    case False
    then show ?thesis
      using "1.IH" by (simp add: str_nat.simps [of n] decimal_value_snoc digit_value)
  qed
qed

lemma decimal_value_zeros: "decimal_value (replicate k CHR ''0'' @ t) = decimal_value t"
proof -
  have "foldl (\<lambda>a c. 10 * a + (of_char c - 48)) (0::nat) (replicate k CHR ''0'') = 0"
    by (induction k) simp_all
  then show ?thesis by (simp add: decimal_value_def)
qed

lemma decimal_value_format_03d: "decimal_value (format_03d i) = i"
  by (simp add: format_03d_def decimal_value_zeros decimal_value_str_nat)

lemma page_filename_inj: "page_filename i = page_filename j \<Longrightarrow> i = j"
proof -
  assume "page_filename i = page_filename j"
  then have "format_03d i = format_03d j" by (simp add: page_filename_def)
  then have "decimal_value (format_03d i) = decimal_value (format_03d j)" by simp
  then show ?thesis by (simp add: decimal_value_format_03d)
qed

lemma os_path_join_page:
  "os_path_join d (page_filename i) =
     (if d = [] \<or> last d = CHR ''/'' then d else d @ ''/'') @ page_filename i"
  by (simp add: os_path_join_def page_filename_def)

lemma page_path_inj: "page_path d i = page_path d j \<Longrightarrow> i = j"
  by (rule page_filename_inj) (simp add: page_path_def os_path_join_page)

lemma inj_page_path: "inj (page_path d)"
  by (rule injI) (rule page_path_inj)

lemma str_nat_length: "n < 1000 \<Longrightarrow> length (str_nat n) \<le> 3"
  by (simp add: str_nat.simps [of n] str_nat.simps [of "n div 10"] str_nat.simps [of "n div 10 div 10"])

lemma format_03d_length: "i < 1000 \<Longrightarrow> length (format_03d i) = 3"
  using str_nat_length [of i] by (simp add: format_03d_def)

section \<open>Lemmas on the page loop\<close>

lemma three_attempts: "(\<exists>j. 0 \<le> j \<and> int j < 3 \<and> P j) = (P 0 \<or> P 1 \<or> P 2)"
proof -
  have "int j < 3 \<longleftrightarrow> j = 0 \<or> j = 1 \<or> j = 2" for j by auto
  then show ?thesis by auto
qed

lemma download_image_result: "fst (download_image E u (page_path d i) 3 s) = page_ok E d (i, u)"
proof -
  have "fst (download_image E u (page_path d i) 3 s) =
      (\<exists>j. 0 \<le> j \<and> int j < 3 \<and> is_written (fetch E u (page_path d i) j))"
    unfolding download_image_def by (rule download_image_from_result)
  also have "\<dots> = page_ok E d (i, u)"
    unfolding three_attempts by (simp add: page_ok_def)
  finally show ?thesis .
qed

lemma download_image_frame:
  "driver (snd (download_image E u p r s)) = driver s"
  "dirs (snd (download_image E u p r s)) = dirs s"
  "download_path (snd (download_image E u p r s)) = download_path s"
  "q \<noteq> p \<Longrightarrow> files (snd (download_image E u p r s)) q = files s q"
  "\<exists>ev. trace (snd (download_image E u p r s)) = trace s @ ev \<and> list_all work_event ev"
  using download_image_from_frame [of E u p r 0 s] by (simp_all add: download_image_def)


lemma download_image_first:
  "fetch E u p 0 = Written b \<Longrightarrow>
   files (snd (download_image E u p 3 s)) = (files s)(p \<mapsto> b)"
  by (simp add: download_image_def download_image_from_success file_after_def)

lemma download_pages_Cons:
  "download_pages E d ((i, u) # rest) c s =
     download_pages E d rest
       (if page_ok E d (i, u) then c + 1 else c)
       (sleep 1 (snd (download_image E u (page_path d i) 3 s)))"
  using download_image_result [of E u d i s]
  by (simp add: page_path_def split_def Let_def)

declare download_pages.simps(2) [simp del]

lemma download_pages_frame:
  "driver (snd (download_pages E d ps c s)) = driver s
   \<and> dirs (snd (download_pages E d ps c s)) = dirs s
   \<and> download_path (snd (download_pages E d ps c s)) = download_path s
   \<and> (\<forall>q. q \<notin> page_path d ` fst ` set ps \<longrightarrow> files (snd (download_pages E d ps c s)) q = files s q)
   \<and> (\<exists>ev. trace (snd (download_pages E d ps c s)) = trace s @ ev \<and> list_all work_event ev)"
proof (induction ps arbitrary: c s)
  case Nil
  then show ?case by simp
next
  case (Cons iu ps)
  obtain i u where iu: "iu = (i, u)" by (cases iu)
  define s1 where "s1 = sleep 1 (snd (download_image E u (page_path d i) 3 s))"
  define c1 where "c1 = (if page_ok E d (i, u) then c + 1 else c)"
  have step: "download_pages E d (iu # ps) c s = download_pages E d ps c1 s1"
    unfolding iu download_pages_Cons s1_def c1_def ..
  obtain ev where ev: "trace s1 = trace s @ ev" "list_all work_event ev"
    using download_image_frame(5) [of E u "page_path d i" 3 s]
    by (auto simp: s1_def)
  from Cons.IH [of c1 s1] obtain ev' where
    ih: "driver (snd (download_pages E d ps c1 s1)) = driver s1"
        "dirs (snd (download_pages E d ps c1 s1)) = dirs s1"
        "download_path (snd (download_pages E d ps c1 s1)) = download_path s1"
        "\<forall>q. q \<notin> page_path d ` fst ` set ps \<longrightarrow> files (snd (download_pages E d ps c1 s1)) q = files s1 q"
        "trace (snd (download_pages E d ps c1 s1)) = trace s1 @ ev'" "list_all work_event ev'"
    by blast
  have t: "trace (snd (download_pages E d ps c1 s1)) = trace s @ (ev @ ev')" "list_all work_event (ev @ ev')"
    using ih(5,6) ev by simp_all
  show ?case
    unfolding step using ih(1-4) t
    by (auto simp: s1_def iu download_image_frame simp del: append_assoc)
qed

lemma download_pages_count:
  "fst (download_pages E d ps c s) = c + length (filter (page_ok E d) ps)"
proof (induction ps arbitrary: c s)
  case Nil
  then show ?case by simp
next
  case (Cons iu ps)
  obtain i u where iu: "iu = (i, u)" by (cases iu)
  show ?case unfolding iu download_pages_Cons by (simp add: Cons.IH)
qed


lemma download_pages_content:
  "distinct (map fst ps) \<Longrightarrow>
   \<forall>(i, u)\<in>set ps. \<exists>b. fetch E u (page_path d i) 0 = Written b \<Longrightarrow>
   \<forall>(i, u)\<in>set ps. files (snd (download_pages E d ps c s)) (page_path d i)
      = written_bytes (fetch E u (page_path d i) 0)"
proof (induction ps arbitrary: c s)
  case Nil
  then show ?case by simp
next
  case (Cons iu ps)
  obtain i u where iu: "iu = (i, u)" by (cases iu)
  obtain b where b: "fetch E u (page_path d i) 0 = Written b"
    using Cons.prems(2) by (auto simp: iu)
  define s1 where "s1 = sleep 1 (snd (download_image E u (page_path d i) 3 s))"
  define c1 where "c1 = (if page_ok E d (i, u) then c + 1 else c)"
  have step: "download_pages E d (iu # ps) c s = download_pages E d ps c1 s1"
    unfolding iu download_pages_Cons s1_def c1_def ..
  have d1: "distinct (map fst ps)" and ni: "i \<notin> fst ` set ps"
    using Cons.prems(1) by (simp_all add: iu)
  have w: "\<forall>(i, u)\<in>set ps. \<exists>b. fetch E u (page_path d i) 0 = Written b"
    using Cons.prems(2) by simp
  have "page_path d i \<notin> page_path d ` fst ` set ps"
    using ni page_path_inj by blast
  then have "files (snd (download_pages E d ps c1 s1)) (page_path d i) = files s1 (page_path d i)"
    using download_pages_frame [of E d ps c1 s1] by blast
  also have "\<dots> = Some b"
    by (simp add: s1_def download_image_first [OF b])
  finally have here: "files (snd (download_pages E d ps c1 s1)) (page_path d i) = Some b" .
  show ?case
    unfolding step using Cons.IH [OF d1 w, of c1 s1] here b
    by (simp add: iu)
qed

section \<open>Lemmas on the orchestrator\<close>

lemma work_event_counts:
  "list_all work_event ev \<Longrightarrow>
   count_list ev QuitDriverCalled = 0 \<and> filter is_quit ev = [] \<and> filter is_acquire ev = []
   \<and> filter is_makedirs ev = []"
proof (induction ev)
  case Nil
  then show ?case by simp
next
  case (Cons e ev)
  then show ?case by (cases e) simp_all
qed

lemma create_driver_cases:
  "(\<exists>e. create_driver E s = (Inl e, s) \<and> chrome_result E = Inl e)
   \<or> (\<exists>e d. create_driver E s = (Inl e, emit (ChromeLaunched d) s)
          \<and> chrome_result E = Inr d \<and> configure_result E = Some e)
   \<or> (\<exists>d. create_driver E s = (Inr d, emit (DriverCreated d) (emit (ChromeLaunched d) s))
          \<and> chrome_result E = Inr d \<and> configure_result E = None)"
  by (simp add: create_driver_def Let_def split: sum.splits option.splits)

lemma create_driver_ok:
  "chrome_result E = Inr d \<Longrightarrow> configure_result E = None \<Longrightarrow>
   create_driver E s = (Inr d, emit (DriverCreated d) (emit (ChromeLaunched d) s))"
  by (simp add: create_driver_def Let_def)

lemma quit_driver_fst: "fst (quit_driver E s) = Inr ()"
  by (simp add: quit_driver_def Let_def split: option.splits)

lemma quit_driver_snd:
  "snd (quit_driver E s) =
     (case driver s of
        None \<Rightarrow> emit QuitDriverCalled s
      | Some d \<Rightarrow> (emit (DriverQuit d) (emit QuitDriverCalled s))\<lparr>driver := None\<rparr>)"
  by (simp add: quit_driver_def Let_def split: option.splits)

lemma download_chapter_eq:
  "download_chapter E u n s =
     (Inr (case fst (download_chapter_try E u n s) of Inl e \<Rightarrow> False | Inr b \<Rightarrow> b),
      sleep 5 (snd (quit_driver E (snd (download_chapter_try E u n s)))))"
  using quit_driver_fst [of E "snd (download_chapter_try E u n s)"]
  by (cases "download_chapter_try E u n s"; cases "quit_driver E (snd (download_chapter_try E u n s))")
     (simp add: download_chapter_def Let_def split: sum.splits)

text \<open>The \<open>try\<close> block of \<open>download_chapter\<close> when no session is obtained.\<close>

lemma download_chapter_try_no_session:
  "fst (create_driver E s) = Inl e \<Longrightarrow>
   download_chapter_try E u n s = (Inl e, snd (create_driver E s))"
  by (cases "create_driver E s") (simp add: download_chapter_try_def)

lemma st_session_simps [simp]:
  "driver (st_session d s) = Some d" "files (st_session d s) = files s"
  "dirs (st_session d s) = dirs s" "download_path (st_session d s) = download_path s"
  "trace (st_session d s) = trace s @ [ChromeLaunched d, DriverCreated d]"
  by (simp_all add: st_session_def)

lemma chapter_dir_of_session [simp]: "chapter_dir_of E (st_session d s) n = chapter_dir_of E s n"
  by (simp add: chapter_dir_of_def)

lemma st_directory_simps [simp]:
  "driver (st_directory E n d s) = Some d" "files (st_directory E n d s) = files s"
  "download_path (st_directory E n d s) = download_path s"
  "trace (st_directory E n d s) = trace s @ [ChromeLaunched d, DriverCreated d, Makedirs (chapter_dir_of E s n)]"
  "dirs (st_directory E n d s) =
     (if makedirs_result E (chapter_dir_of E s n) = None then insert (chapter_dir_of E s n) (dirs s)
      else dirs s)"
  by (simp_all add: st_directory_def makedirs_def Let_def split: option.splits)

lemma st_scraped_simps [simp]:
  "driver (st_scraped E u n d s) = Some d" "files (st_scraped E u n d s) = files s"
  "download_path (st_scraped E u n d s) = download_path s"
  "dirs (st_scraped E u n d s) = dirs (st_directory E n d s)"
  using get_chapter_images_frame [of E u "st_directory E n d s"]
  by (simp_all add: st_scraped_def)

lemma st_scraped_trace:
  "\<exists>ev. trace (st_scraped E u n d s) =
           trace s @ [ChromeLaunched d, DriverCreated d, Makedirs (chapter_dir_of E s n)] @ ev
        \<and> list_all work_event ev"
  using get_chapter_images_frame [of E u "st_directory E n d s"]
  by (auto simp: st_scraped_def)

lemma download_chapter_try_makedirs_fails:
  "create_driver E s = (Inr d, s1) \<Longrightarrow> makedirs_result E (chapter_dir_of E s n) = Some e \<Longrightarrow>
   download_chapter_try E u n s = (Inl e, st_directory E n d s)"
  using create_driver_cases [of E s]
  by (auto simp: download_chapter_try_def Let_def st_directory_def st_session_def makedirs_def
        chapter_dir_of_def)

lemma download_chapter_try_scraped:
  assumes "create_driver E s = (Inr d, s1)" and "makedirs_result E (chapter_dir_of E s n) = None"
  shows "download_chapter_try E u n s =
     (case fst (get_chapter_images E u (st_directory E n d s)) of
        Inl e \<Rightarrow> (Inl e, st_scraped E u n d s)
      | Inr urls \<Rightarrow>
          if urls = [] then (Inr False, st_scraped E u n d s)
          else (Inr (0 < fst (download_pages E (chapter_dir_of E s n) (enumerate 1 urls) 0 (st_scraped E u n d s))),
                snd (download_pages E (chapter_dir_of E s n) (enumerate 1 urls) 0 (st_scraped E u n d s))))"
proof -
  have s1: "s1 = emit (DriverCreated d) (emit (ChromeLaunched d) s)"
    using assms(1) create_driver_cases [of E s] by auto
  have m: "makedirs E (chapter_dir_of E s n) (st_session d s) = (Inr (), st_directory E n d s)"
    using assms(2) by (simp add: st_directory_def makedirs_def Let_def)
  have c: "chapter_dir_of E (s1\<lparr>driver := Some d\<rparr>) n = chapter_dir_of E s n"
    by (simp add: chapter_dir_of_def s1)
  have ss: "s1\<lparr>driver := Some d\<rparr> = st_session d s"
    by (simp add: s1 st_session_def)
  show ?thesis
    by (cases "get_chapter_images E u (st_directory E n d s)")
       (simp add: download_chapter_try_def assms(1) Let_def c ss m st_scraped_def split_def
          split: sum.splits)
qed

lemma download_chapter_try_shape:
  "(\<exists>e. fst (create_driver E s) = Inl e
        \<and> download_chapter_try E u n s = (Inl e, snd (create_driver E s)))
   \<or> (\<exists>d e. fst (create_driver E s) = Inr d
        \<and> makedirs_result E (chapter_dir_of E s n) = Some e
        \<and> download_chapter_try E u n s = (Inl e, st_directory E n d s))
   \<or> (\<exists>d. fst (create_driver E s) = Inr d
        \<and> makedirs_result E (chapter_dir_of E s n) = None
        \<and> fst (get_chapter_images E u (st_directory E n d s)) = Inr []
        \<and> download_chapter_try E u n s = (Inr False, st_scraped E u n d s))
   \<or> (\<exists>d urls. fst (create_driver E s) = Inr d
        \<and> makedirs_result E (chapter_dir_of E s n) = None
        \<and> fst (get_chapter_images E u (st_directory E n d s)) = Inr urls \<and> urls \<noteq> []
        \<and> download_chapter_try E u n s =
            (Inr (0 < fst (download_pages E (chapter_dir_of E s n) (enumerate 1 urls) 0 (st_scraped E u n d s))),
             snd (download_pages E (chapter_dir_of E s n) (enumerate 1 urls) 0 (st_scraped E u n d s))))"
proof (cases "create_driver E s")
  case (Pair r s1)
  show ?thesis
  proof (cases r)
    case (Inl e)
    then show ?thesis
      using Pair download_chapter_try_no_session [of E s e u n] by simp
  next
    case (Inr d)
    then have c: "create_driver E s = (Inr d, s1)" using Pair by simp
    show ?thesis
    proof (cases "makedirs_result E (chapter_dir_of E s n)")
      case (Some e)
      then show ?thesis
        using download_chapter_try_makedirs_fails [OF c Some, of u] c by simp
    next
      case None
      obtain urls where urls: "fst (get_chapter_images E u (st_directory E n d s)) = Inr urls"
        using get_chapter_images_total by blast
      show ?thesis
        using download_chapter_try_scraped [OF c None, of u] c None urls
        by (cases "urls = []") simp_all
    qed
  qed
qed

text \<open>Session events of the \<open>try\<close> block: at most one acquisition, no release.\<close>

lemma download_chapter_try_lifecycle:
  "\<exists>ev. trace (snd (download_chapter_try E u n s)) = trace s @ ev
      \<and> count_list ev QuitDriverCalled = 0 \<and> filter is_quit ev = []
      \<and> ((\<exists>d. driver (snd (download_chapter_try E u n s)) = Some d \<and> filter is_acquire ev = [DriverCreated d])
         \<or> (driver (snd (download_chapter_try E u n s)) = driver s \<and> filter is_acquire ev = []))"
proof -
  consider
    (a) e where "fst (create_driver E s) = Inl e"
      "download_chapter_try E u n s = (Inl e, snd (create_driver E s))"
  | (b) d e where "download_chapter_try E u n s = (Inl e, st_directory E n d s)"
  | (c) d where "download_chapter_try E u n s = (Inr False, st_scraped E u n d s)"
  | (d) d urls where "download_chapter_try E u n s =
            (Inr (0 < fst (download_pages E (chapter_dir_of E s n) (enumerate 1 urls) 0 (st_scraped E u n d s))),
             snd (download_pages E (chapter_dir_of E s n) (enumerate 1 urls) 0 (st_scraped E u n d s)))"
    using download_chapter_try_shape [of E s u n] by blast
  then show ?thesis
  proof cases
    case a
    from create_driver_cases [of E s] a(1)
    have "snd (create_driver E s) = s \<or> (\<exists>d. snd (create_driver E s) = emit (ChromeLaunched d) s)"
      by auto
    then show ?thesis
    proof
      assume "snd (create_driver E s) = s"
      then show ?thesis using a(2) by simp
    next
      assume "\<exists>d. snd (create_driver E s) = emit (ChromeLaunched d) s"
      then obtain d where "snd (create_driver E s) = emit (ChromeLaunched d) s" ..
      then have "trace (snd (download_chapter_try E u n s)) = trace s @ [ChromeLaunched d]"
        and "driver (snd (download_chapter_try E u n s)) = driver s"
        using a(2) by simp_all
      then show ?thesis by force
    qed
  next
    case b
    then have "trace (snd (download_chapter_try E u n s)) =
        trace s @ [ChromeLaunched d, DriverCreated d, Makedirs (chapter_dir_of E s n)]"
      and "driver (snd (download_chapter_try E u n s)) = Some d"
      by simp_all
    then show ?thesis by force
  next
    case c
    obtain ev where ev: "trace (st_scraped E u n d s) =
        trace s @ [ChromeLaunched d, DriverCreated d, Makedirs (chapter_dir_of E s n)] @ ev"
        "list_all work_event ev"
      using st_scraped_trace by blast
    have "trace (snd (download_chapter_try E u n s)) =
        trace s @ ([ChromeLaunched d, DriverCreated d, Makedirs (chapter_dir_of E s n)] @ ev)"
      and "driver (snd (download_chapter_try E u n s)) = Some d"
      using c ev(1) by simp_all
    moreover have "count_list ([ChromeLaunched d, DriverCreated d, Makedirs (chapter_dir_of E s n)] @ ev) QuitDriverCalled = 0"
      "filter is_quit ([ChromeLaunched d, DriverCreated d, Makedirs (chapter_dir_of E s n)] @ ev) = []"
      "filter is_acquire ([ChromeLaunched d, DriverCreated d, Makedirs (chapter_dir_of E s n)] @ ev) = [DriverCreated d]"
      using work_event_counts [OF ev(2)] by simp_all
    ultimately show ?thesis by blast
  next
    case d
    define P where "P = download_pages E (chapter_dir_of E s n) (enumerate 1 urls) 0 (st_scraped E u n d s)"
    obtain ev where ev: "trace (st_scraped E u n d s) =
        trace s @ [ChromeLaunched d, DriverCreated d, Makedirs (chapter_dir_of E s n)] @ ev"
        "list_all work_event ev"
      using st_scraped_trace by blast
    obtain ev' where ev': "trace (snd P) = trace (st_scraped E u n d s) @ ev'" "list_all work_event ev'"
      and dr: "driver (snd P) = driver (st_scraped E u n d s)"
      using download_pages_frame [of E "chapter_dir_of E s n" "enumerate 1 urls" 0 "st_scraped E u n d s"]
      unfolding P_def by blast
    have w: "list_all work_event (ev @ ev')" using ev(2) ev'(2) by simp
    have "trace (snd (download_chapter_try E u n s)) =
        trace s @ ([ChromeLaunched d, DriverCreated d, Makedirs (chapter_dir_of E s n)] @ (ev @ ev'))"
      and "driver (snd (download_chapter_try E u n s)) = Some d"
      using d ev(1) ev'(1) dr by (simp_all add: P_def)
    moreover have "count_list ([ChromeLaunched d, DriverCreated d, Makedirs (chapter_dir_of E s n)] @ (ev @ ev')) QuitDriverCalled = 0"
      "filter is_quit ([ChromeLaunched d, DriverCreated d, Makedirs (chapter_dir_of E s n)] @ (ev @ ev')) = []"
      "filter is_acquire ([ChromeLaunched d, DriverCreated d, Makedirs (chapter_dir_of E s n)] @ (ev @ ev')) = [DriverCreated d]"
      using work_event_counts [OF w] by simp_all
    ultimately show ?thesis by blast
  qed
qed

lemma quit_driver_trace:
  "trace (snd (quit_driver E s)) =
     trace s @ QuitDriverCalled # (case driver s of None \<Rightarrow> [] | Some d \<Rightarrow> [DriverQuit d])"
  by (simp add: quit_driver_snd split: option.splits)

lemma quit_driver_frame [simp]:
  "driver (snd (quit_driver E s)) = None" "files (snd (quit_driver E s)) = files s"
  "dirs (snd (quit_driver E s)) = dirs s" "download_path (snd (quit_driver E s)) = download_path s"
  by (simp_all add: quit_driver_snd split: option.splits)

lemma scrape_in_chapter:
  "fst (get_chapter_images E u (st_directory E n d s)) = fst (get_chapter_images E u (s\<lparr>driver := Some d\<rparr>))"
  by (rule get_chapter_images_state) simp_all

text \<open>The \<open>try\<close> block when the session and the directory are obtained.\<close>

lemma download_chapter_try_ready:
  assumes "chrome_result E = Inr d" and "configure_result E = None"
    and "makedirs_result E (chapter_dir_of E s n) = None"
    and "fst (get_chapter_images E u (s\<lparr>driver := Some d\<rparr>)) = Inr urls"
  shows "download_chapter_try E u n s =
     (if urls = [] then (Inr False, st_scraped E u n d s)
      else (Inr (0 < length (filter (page_ok E (chapter_dir_of E s n)) (enumerate 1 urls))),
            snd (download_pages E (chapter_dir_of E s n) (enumerate 1 urls) 0 (st_scraped E u n d s))))"
  using download_chapter_try_scraped [OF create_driver_ok [OF assms(1,2)] assms(3), of u]
  by (simp add: scrape_in_chapter assms(4) download_pages_count)

lemma download_chapter_state:
  "files (snd (download_chapter E u n s)) = files (snd (download_chapter_try E u n s))"
  "dirs (snd (download_chapter E u n s)) = dirs (snd (download_chapter_try E u n s))"
  "trace (snd (download_chapter E u n s)) =
     trace (snd (quit_driver E (snd (download_chapter_try E u n s)))) @ [Sleep 5]"
  "fst (download_chapter E u n s) =
     Inr (case fst (download_chapter_try E u n s) of Inl e \<Rightarrow> False | Inr b \<Rightarrow> b)"
  by (simp_all add: download_chapter_eq)

section \<open>Lemmas on the sample environments\<close>

lemma sample_chapter_dir:
  "chapter_dir_of E sample_state (Some ''ch1'') = ''/downloads/ch1''"
  "chapter_dir_of E active_state (Some ''ch1'') = ''/downloads/ch1''"
  by (simp_all add: chapter_dir_of_def resolve_name_def truthy_def os_path_join_def
        sample_state_def active_state_def)

lemma sample_fields:
  "chrome_result env_no_images = Inr 7" "configure_result env_no_images = None"
  "makedirs_result env_no_images = (\<lambda>d. None)"
  "navigate_result env_no_images = (\<lambda>u. None)" "wait_result env_no_images = None"
  by (simp_all add: env_no_images_def env_ok_def)

section \<open>Lemmas on whole chapters\<close>

lemma enumerate_indices: "fst ` set (enumerate 1 urls) = {1..length urls}"
proof -
  have "fst ` set (enumerate 1 urls) = set (map fst (enumerate 1 urls))"
    by (rule set_map [symmetric])
  also have "\<dots> = {1..<1 + length urls}" unfolding map_fst_enumerate by (rule set_upt)
  also have "\<dots> = {1..length urls}" by auto
  finally show ?thesis .
qed

lemma enumerate_member: "i < length urls \<Longrightarrow> (Suc i, urls ! i) \<in> set (enumerate 1 urls)"
  unfolding in_set_enumerate_eq by simp

lemma enumerate_member_iff:
  "((j, v) \<in> set (enumerate 1 urls)) = (\<exists>i<length urls. j = Suc i \<and> v = urls ! i)"
proof
  assume "(j, v) \<in> set (enumerate 1 urls)"
  then have "1 \<le> j" "j < length urls + 1" "urls ! (j - 1) = v"
    unfolding in_set_enumerate_eq by simp_all
  then have "j - 1 < length urls \<and> j = Suc (j - 1) \<and> v = urls ! (j - 1)" by auto
  then show "\<exists>i<length urls. j = Suc i \<and> v = urls ! i" by blast
next
  assume "\<exists>i<length urls. j = Suc i \<and> v = urls ! i"
  then show "(j, v) \<in> set (enumerate 1 urls)" using enumerate_member by auto
qed

lemma card_pages:
  "distinct (map fst ps) \<Longrightarrow> card (page_path d ` fst ` set ps) = length ps"
proof -
  assume a: "distinct (map fst ps)"
  have "card (page_path d ` fst ` set ps) = card (fst ` set ps)"
    by (rule card_image) (rule inj_on_subset [OF inj_page_path], simp)
  also have "\<dots> = card (set (map fst ps))" by simp
  also have "\<dots> = length ps" using distinct_card [OF a] by simp
  finally show ?thesis .
qed


lemma str_nat_inj: "str_nat a = str_nat b \<Longrightarrow> a = b"
  by (metis decimal_value_str_nat)

lemma sample_src_eq [simp]: "(sample_src a = sample_src b) = (a = b)"
  by (auto simp: sample_src_def dest: str_nat_inj)

lemma sample_src_nonempty [simp]: "sample_src a \<noteq> []"
  by (simp add: sample_src_def)

lemma sample_pages [simp]:
  "page_path ''/downloads/ch1'' (Suc 0) = ''/downloads/ch1/page_001.jpg''"
  "page_path ''/downloads/ch1'' 1 = ''/downloads/ch1/page_001.jpg''"
  "page_path ''/downloads/ch1'' 2 = ''/downloads/ch1/page_002.jpg''"
  "page_path ''/downloads/ch1'' 3 = ''/downloads/ch1/page_003.jpg''"
  "page_path ''/downloads/ch1'' 4 = ''/downloads/ch1/page_004.jpg''"
  "page_path ''/downloads/ch1'' 5 = ''/downloads/ch1/page_005.jpg''"
  by code_simp+

text \<open>Environments that differ from \<open>env_ok\<close> in the answers to image requests only.\<close>

lemma sample_extraction:
  assumes "chrome_result E = Inr 7" and "navigate_result E = (\<lambda>u. None)" and "wait_result E = None"
    and "find_elements E = find_elements env_ok" and "get_attribute E = get_attribute env_ok"
  shows "fst (get_chapter_images E u (sample_state\<lparr>driver := Some 7\<rparr>)) =
     Inr [sample_src 1, sample_src 2, sample_src 3, sample_src 4, sample_src 5]"
proof -
  have sel: "select_images E = Inr [1, 2, 3, 4, 5]"
    by (simp add: select_images_def assms(4) env_ok_def)
  have eff: "effective_src E img = Inr (Some (sample_src img))" for img
    by (simp add: effective_src_def assms(5) env_ok_def truthy_def)
  have col: "collect_urls E [1, 2, 3, 4, 5] =
      Inr [sample_src 1, sample_src 2, sample_src 3, sample_src 4, sample_src 5]"
    by (simp add: eff sample_src_retained)
  show ?thesis
    by (simp add: get_chapter_images_fst get_chapter_images_try_def Let_def assms(2,3) sel
          eff sample_src_retained)
qed





section \<open>Properties of the image fetcher\<close>

text \<open>
  C10. With \<open>retries \<le> 0\<close> the loop body of \<open>download_image\<close> never runs: the call
  returns \<open>False\<close> and leaves the state as it was, so no HTTP request is made (the
  trace is unchanged) and no file is created.
\<close>

theorem download_image_no_retries:
  assumes "retries \<le> 0"
  shows "download_image E u p retries s = (False, s)"
  using assms by (simp add: download_image_def download_image_from.simps)

theorem download_image_no_retries_witness:
  "download_image env_requests_fail ''u'' ''p'' 0 sample_state = (False, sample_state)
   \<and> download_image env_ok ''u'' ''p'' (- 1) sample_state = (False, sample_state)"
  using download_image_no_retries [of 0 env_requests_fail "''u''" "''p''" sample_state]
        download_image_no_retries [of "- 1" env_ok "''u''" "''p''" sample_state]
  by simp

text \<open>
  C2, as stated, asks for a pause of \<open>2 ^ k\<close> before attempt \<open>k\<close>. The source sleeps
  \<open>2 ** attempt\<close> after the failed attempt \<open>attempt\<close>: with three failing attempts
  the pause before attempt 1 is one second, not two.
\<close>

theorem delay_before_attempt_counterexample:
  "delay_before ''u'' 1 (trace (snd (download_image env_requests_fail ''u'' ''p'' 3 sample_state))) = Some 1
   \<and> delay_before ''u'' 1 (trace (snd (download_image env_requests_fail ''u'' ''p'' 3 sample_state)))
       \<noteq> Some (2 ^ 1)"
  by (simp add: download_image_def download_image_from.simps attempt_download_def
        env_requests_fail_def env_ok_def sample_state_def emit_def sleep_def)

text \<open>
  C2, amended. When every attempt of \<open>download_image\<close> fails, the call makes exactly
  \<open>max 0 retries\<close> attempts; the pause after the failed attempt \<open>k\<close> (0-indexed),
  that is before attempt \<open>k + 1\<close>, is \<open>2 ^ k\<close> seconds; there is no pause before the
  first attempt and none after the last one. The events of the call are exactly the
  schedule \<open>backoff_events\<close>.
\<close>

theorem download_image_backoff:
  assumes "\<forall>k. int k < retries \<longrightarrow> \<not> is_written (fetch E u p k)"
  shows "fst (download_image E u p retries s) = False
       \<and> trace (snd (download_image E u p retries s)) = trace s @ backoff_events u retries 0
       \<and> int (length (filter is_attempt (backoff_events u retries 0))) = max 0 retries
       \<and> delay_before u 0 (backoff_events u retries 0) = None
       \<and> (\<forall>k. int (Suc k) < retries \<longrightarrow>
             delay_before u (Suc k) (backoff_events u retries 0) = Some (2 ^ k))
       \<and> (0 < retries \<longrightarrow> last (backoff_events u retries 0) = HttpGet u (nat retries - 1))"
proof -
  have f: "\<forall>j. 0 \<le> j \<and> int j < retries \<longrightarrow> \<not> is_written (fetch E u p j)"
    using assms by simp
  have a: "fst (download_image E u p retries s) = False"
    and b: "trace (snd (download_image E u p retries s)) = trace s @ backoff_events u retries 0"
    using download_image_from_all_fail [OF f, of s] by (simp_all add: download_image_def)
  have c: "int (length (filter is_attempt (backoff_events u retries 0))) = max 0 retries"
    by (simp add: attempts_backoff_events)
  have d: "delay_before u 0 (backoff_events u retries 0) = None"
    by (rule delay_before_backoff_earlier) simp
  have e: "\<forall>k. int (Suc k) < retries \<longrightarrow>
             delay_before u (Suc k) (backoff_events u retries 0) = Some (2 ^ k)"
    by (simp add: delay_before_backoff_later)
  have g: "0 < retries \<longrightarrow> last (backoff_events u retries 0) = HttpGet u (nat retries - 1)"
    using last_backoff_events [of 0 retries u] by simp
  from a b c d e g show ?thesis by blast
qed

theorem download_image_backoff_witness:
  "fst (download_image env_requests_fail ''u'' ''p'' 3 sample_state) = False
   \<and> trace (snd (download_image env_requests_fail ''u'' ''p'' 3 sample_state))
       = [HttpGet ''u'' 0, Sleep 1, HttpGet ''u'' 1, Sleep 2, HttpGet ''u'' 2]"
proof -
  have h: "\<forall>k. int k < 3 \<longrightarrow> \<not> is_written (fetch env_requests_fail ''u'' ''p'' k)"
    by (simp add: env_requests_fail_def)
  have ev: "backoff_events ''u'' 3 0 = [HttpGet ''u'' 0, Sleep 1, HttpGet ''u'' 1, Sleep 2, HttpGet ''u'' 2]"
    by (simp add: backoff_events_def backoff_step_def upt_conv_Cons)
  show ?thesis
    using download_image_backoff [OF h, of sample_state]
    by (simp add: ev sample_state_def)
qed




section \<open>Properties of the page scraper\<close>

text \<open>
  C4, as stated, promises the addresses of all four elements of the reader container.
  The source keeps an address only if it contains \<open>mangapark\<close>: four images served
  from another host are all dropped.
\<close>

theorem reader_fallback_counterexample:
  "find_elements env_other_host primary_selector = Inr []
   \<and> find_elements env_other_host reader_selector = Inr [1, 2, 3, 4]
   \<and> fst (get_chapter_images env_other_host ''http://x'' active_state) = Inr []"
  by (simp add: get_chapter_images_fst get_chapter_images_try_def active_state_def sample_state_def
        env_other_host_def [THEN arg_cong [of _ _ find_elements]]
        env_other_host_def [THEN arg_cong [of _ _ navigate_result]]
        env_other_host_def [THEN arg_cong [of _ _ wait_result]]
        env_other_host_def [THEN arg_cong [of _ _ get_attribute]]
        env_ok_def primary_selector_def reader_selector_def
        effective_src_def truthy_def retained_def str_nat_digit digit_char_def starts_with_def)

text \<open>
  C4, amended. When the primary selector matches nothing and the reader-container
  selector matches a non-empty list of elements (four, say), and no attribute read
  raises, \<open>get_chapter_images\<close> returns, in document order, the effective address
  (\<open>src\<close>, else \<open>data-src\<close>) of those matched elements whose effective address is
  not empty and contains \<open>mangapark\<close>; it returns the addresses of all of them exactly
  when each passes that filter.
\<close>

theorem reader_fallback:
  assumes "driver s \<noteq> None" and "navigate_result E u = None" and "wait_result E = None"
    and "find_elements E primary_selector = Inr []"
    and "find_elements E reader_selector = Inr els" and "els \<noteq> []"
    and "\<forall>img\<in>set els. \<exists>a. effective_src E img = Inr a"
  shows "fst (get_chapter_images E u s) =
           Inr (map (\<lambda>img. the (effective_url E img))
                  (filter (\<lambda>img. retained (effective_url E img)) els))
       \<and> ((\<forall>img\<in>set els. retained (effective_url E img)) \<longrightarrow>
            fst (get_chapter_images E u s) = Inr (map (\<lambda>img. the (effective_url E img)) els))"
proof -
  have sel: "select_images E = Inr els"
    using assms(4,5,6) by (simp add: select_images_def)
  have "fst (get_chapter_images_try E u s) = collect_urls E els"
    using assms(1,2,3) sel
    by (auto simp: get_chapter_images_try_def Let_def split: sum.splits)
  then have a: "fst (get_chapter_images E u s) =
           Inr (map (\<lambda>img. the (effective_url E img))
                  (filter (\<lambda>img. retained (effective_url E img)) els))"
    by (simp add: get_chapter_images_fst collect_urls_no_raise [OF assms(7)])
  have "filter (\<lambda>img. retained (effective_url E img)) els = els"
    if "\<forall>img\<in>set els. retained (effective_url E img)"
    using that by (simp add: filter_id_conv)
  with a show ?thesis by auto
qed

theorem reader_fallback_witness:
  "fst (get_chapter_images env_lazy ''http://x'' active_state) =
     Inr [sample_src 1, sample_src 2, sample_src 3, sample_src 4]
   \<and> fst (get_chapter_images env_other_host ''http://x'' active_state) = Inr []"
proof -
  have s: "driver active_state \<noteq> None"
    by (simp add: active_state_def)
  have l: "navigate_result env_lazy ''http://x'' = None" "wait_result env_lazy = None"
    "find_elements env_lazy primary_selector = Inr []"
    "find_elements env_lazy reader_selector = Inr [1, 2, 3, 4]"
    by (simp_all add: env_lazy_def env_ok_def primary_selector_def reader_selector_def)
  have le: "effective_src env_lazy img = Inr (Some (sample_src img))" for img
    by (simp add: effective_src_def env_lazy_def env_ok_def truthy_def)
  have l7: "\<forall>img\<in>set [1, 2, 3, 4]. \<exists>a. effective_src env_lazy img = Inr a"
    by (simp add: le)
  have o: "navigate_result env_other_host ''http://x'' = None" "wait_result env_other_host = None"
    "find_elements env_other_host primary_selector = Inr []"
    "find_elements env_other_host reader_selector = Inr [1, 2, 3, 4]"
    by (simp_all add: env_other_host_def env_ok_def primary_selector_def reader_selector_def)
  have oe: "effective_src env_other_host img = Inr (Some (''https://cdn.example.org/'' @ str_nat img @ ''.jpg''))" for img
    by (simp add: effective_src_def env_other_host_def env_ok_def truthy_def)
  have o7: "\<forall>img\<in>set [1, 2, 3, 4]. \<exists>a. effective_src env_other_host img = Inr a"
    by (simp add: oe)
  have nr: "retained (effective_url env_other_host img) = False" if "img < 10" for img
    using that by (simp add: effective_url_def oe retained_def str_nat_digit starts_with_def)
  have lu: "effective_url env_lazy img = Some (sample_src img)" for img
    by (simp add: effective_url_def le)
  show ?thesis
    using reader_fallback [OF s l(1) l(2) l(3) l(4) _ l7]
          reader_fallback [OF s o(1) o(2) o(3) o(4) _ o7]
    by (simp add: lu sample_src_retained nr)
qed

text \<open>
  C8. \<open>get_chapter_images\<close> never raises: it returns a list, and the empty list
  whenever its \<open>try\<close> block raises, be it the page load (\<open>driver.get\<close>), the wait for
  an image (a \<open>TimeoutException\<close> on expiry, or any other exception), a
  \<open>find_elements\<close> call or an attribute read.
\<close>

theorem get_chapter_images_never_raises:
  "(\<exists>urls. fst (get_chapter_images E u s) = Inr urls)
   \<and> ((\<exists>e. fst (get_chapter_images_try E u s) = Inl e) \<longrightarrow> fst (get_chapter_images E u s) = Inr [])
   \<and> ((\<exists>e. navigate_result E u = Some e) \<longrightarrow> fst (get_chapter_images E u s) = Inr [])
   \<and> ((\<exists>e. wait_result E = Some e) \<longrightarrow> fst (get_chapter_images E u s) = Inr [])
   \<and> ((\<exists>e. select_images E = Inl e) \<longrightarrow> fst (get_chapter_images E u s) = Inr [])
   \<and> ((\<exists>e els. select_images E = Inr els \<and> collect_urls E els = Inl e)
         \<longrightarrow> fst (get_chapter_images E u s) = Inr [])"
proof -
  have a: "\<exists>urls. fst (get_chapter_images E u s) = Inr urls"
    by (rule get_chapter_images_total)
  have b: "(\<exists>e. fst (get_chapter_images_try E u s) = Inl e) \<longrightarrow> fst (get_chapter_images E u s) = Inr []"
    by (auto simp: get_chapter_images_fst)
  have c: "(\<exists>e. navigate_result E u = Some e) \<longrightarrow> fst (get_chapter_images E u s) = Inr []"
    by (auto simp: get_chapter_images_fst get_chapter_images_try_def Let_def split: option.splits)
  have d: "(\<exists>e. wait_result E = Some e) \<longrightarrow> fst (get_chapter_images E u s) = Inr []"
    by (auto simp: get_chapter_images_fst get_chapter_images_try_def Let_def split: option.splits)
  have e: "(\<exists>e. select_images E = Inl e) \<longrightarrow> fst (get_chapter_images E u s) = Inr []"
    by (auto simp: get_chapter_images_fst get_chapter_images_try_def Let_def split: option.splits)
  have f: "(\<exists>e els. select_images E = Inr els \<and> collect_urls E els = Inl e)
         \<longrightarrow> fst (get_chapter_images E u s) = Inr []"
    by (auto simp: get_chapter_images_fst get_chapter_images_try_def Let_def split: option.splits)
  from a b c d e f show ?thesis by blast
qed

theorem get_chapter_images_never_raises_witness:
  "fst (get_chapter_images env_timeout ''http://x'' active_state) = Inr []
   \<and> fst (get_chapter_images env_unreachable ''http://x'' active_state) = Inr []
   \<and> fst (get_chapter_images env_no_selector ''http://x'' active_state) = Inr []
   \<and> fst (get_chapter_images env_stale ''http://x'' active_state) = Inr []"
proof -
  have 1: "wait_result env_timeout = Some TimeoutException"
    by (simp add: env_timeout_def)
  have 2: "navigate_result env_unreachable ''http://x'' = Some WebDriverException"
    by (simp add: env_unreachable_def)
  have 3: "select_images env_no_selector = Inl WebDriverException"
    by simp
  have ga: "get_attribute env_stale =
      (\<lambda>e a. if e = 3 then Inl WebDriverException
             else if a = ''src'' then Inr (Some (sample_src e)) else Inr None)"
    by (simp add: env_stale_def)
  have "effective_src env_stale 3 = Inl WebDriverException"
    by (simp add: effective_src_def ga)
  moreover have "\<exists>a. effective_src env_stale 1 = Inr a" "\<exists>a. effective_src env_stale 2 = Inr a"
    by (simp_all add: effective_src_def ga)
  ultimately have "collect_urls env_stale [1, 2, 3, 4, 5] = Inl WebDriverException"
    by auto
  then have 4: "\<exists>e els. select_images env_stale = Inr els \<and> collect_urls env_stale els = Inl e"
    by (intro exI conjI) (rule sample_select(2), assumption)
  have a: "fst (get_chapter_images env_timeout ''http://x'' active_state) = Inr []"
    using get_chapter_images_never_raises [of env_timeout "''http://x''" active_state]
    by (simp add: 1)
  have b: "fst (get_chapter_images env_unreachable ''http://x'' active_state) = Inr []"
    using get_chapter_images_never_raises [of env_unreachable "''http://x''" active_state]
    by (simp add: 2)
  have c: "fst (get_chapter_images env_no_selector ''http://x'' active_state) = Inr []"
    using get_chapter_images_never_raises [of env_no_selector "''http://x''" active_state]
    by (simp add: 3)
  have "(\<exists>e els. select_images env_stale = Inr els \<and> collect_urls env_stale els = Inl e)
          \<longrightarrow> fst (get_chapter_images env_stale ''http://x'' active_state) = Inr []"
    using get_chapter_images_never_raises [of env_stale "''http://x''" active_state]
    by (elim conjE)
  with 4 have d: "fst (get_chapter_images env_stale ''http://x'' active_state) = Inr []"
    by (rule rev_mp)
  from a b c d show ?thesis by simp
qed

section \<open>Properties of the chapter orchestrator\<close>

text \<open>
  C1. Every call of \<open>download_chapter\<close> returns a boolean (nothing is raised) and
  runs \<open>quit_driver\<close> exactly once, whichever step failed: the trace gains exactly one
  \<open>QuitDriverCalled\<close>, and the object is left without a driver. Started without a
  driver, as \<open>__init__\<close> and every earlier call leave the object, the call quits as many
  sessions as \<open>create_driver\<close> handed out, so the two counts stay equal over any
  number of calls. \<open>quit_driver\<close> itself never raises, also when \<open>driver.quit()\<close>
  does; it changes no file; with no driver it does nothing but return; and a second
  call after a first one does nothing either.
\<close>

theorem release_exactly_once:
  "(\<exists>b. fst (download_chapter E u n s) = Inr b)
   \<and> release_calls (trace (snd (download_chapter E u n s))) = release_calls (trace s) + 1
   \<and> driver (snd (download_chapter E u n s)) = None
   \<and> (driver s = None \<longrightarrow>
        teardown_count (trace (snd (download_chapter E u n s))) + acquisition_count (trace s)
          = teardown_count (trace s) + acquisition_count (trace (snd (download_chapter E u n s))))
   \<and> fst (quit_driver E s) = Inr ()
   \<and> driver (snd (quit_driver E s)) = None
   \<and> files (snd (quit_driver E s)) = files s
   \<and> (driver s = None \<longrightarrow> snd (quit_driver E s) = emit QuitDriverCalled s)
   \<and> snd (quit_driver E (snd (quit_driver E s))) = emit QuitDriverCalled (snd (quit_driver E s))"
proof -
  define T where "T = snd (download_chapter_try E u n s)"
  have S: "snd (download_chapter E u n s) = sleep 5 (snd (quit_driver E T))"
    and R: "\<exists>b. fst (download_chapter E u n s) = Inr b"
    by (simp_all add: download_chapter_eq T_def)
  obtain ev where ev: "trace T = trace s @ ev" "count_list ev QuitDriverCalled = 0"
    "filter is_quit ev = []"
    "(\<exists>d. driver T = Some d \<and> filter is_acquire ev = [DriverCreated d])
      \<or> (driver T = driver s \<and> filter is_acquire ev = [])"
    using download_chapter_try_lifecycle [of E u n s] unfolding T_def by blast
  have tr: "trace (snd (download_chapter E u n s)) =
      trace s @ ev @ QuitDriverCalled # (case driver T of None \<Rightarrow> [] | Some d \<Rightarrow> [DriverQuit d]) @ [Sleep 5]"
    by (simp add: S quit_driver_trace ev(1))
  have a: "release_calls (trace (snd (download_chapter E u n s))) = release_calls (trace s) + 1"
    unfolding tr by (simp add: release_calls_def ev(2) split: option.splits)
  have b: "driver (snd (download_chapter E u n s)) = None"
    by (simp add: S)
  have c: "teardown_count (trace (snd (download_chapter E u n s))) + acquisition_count (trace s)
          = teardown_count (trace s) + acquisition_count (trace (snd (download_chapter E u n s)))"
    if "driver s = None"
    using ev(4) that unfolding tr
    by (auto simp: teardown_count_def acquisition_count_def ev(3))
  have q: "snd (quit_driver E (snd (quit_driver E s))) = emit QuitDriverCalled (snd (quit_driver E s))"
    by (simp add: quit_driver_snd [of E "snd (quit_driver E s)"])
  have q0: "snd (quit_driver E s) = emit QuitDriverCalled s" if "driver s = None"
    using that by (simp add: quit_driver_snd)
  show ?thesis
    using R a b c q q0 by (simp add: quit_driver_fst)
qed

theorem release_exactly_once_witness:
  "driver sample_state = None
   \<and> release_calls (trace (snd (download_chapter env_ok ''http://x'' (Some ''ch1'') sample_state))) = 1
   \<and> teardown_count (trace (snd (download_chapter env_ok ''http://x'' (Some ''ch1'') sample_state)))
       = acquisition_count (trace (snd (download_chapter env_ok ''http://x'' (Some ''ch1'') sample_state)))
   \<and> release_calls (trace (snd (download_chapter env_chrome_fails ''http://x'' None sample_state))) = 1
   \<and> teardown_count (trace (snd (download_chapter env_chrome_fails ''http://x'' None sample_state)))
       = acquisition_count (trace (snd (download_chapter env_chrome_fails ''http://x'' None sample_state)))
   \<and> snd (quit_driver env_ok sample_state) = emit QuitDriverCalled sample_state"
proof -
  have d: "driver sample_state = None" and t: "trace sample_state = []"
    by (simp_all add: sample_state_def)
  show ?thesis
    using release_exactly_once [of env_ok "''http://x''" "Some ''ch1''" sample_state]
          release_exactly_once [of env_chrome_fails "''http://x''" None sample_state]
    by (simp add: d t release_calls_def teardown_count_def acquisition_count_def)
qed

text \<open>
  C7. When the session and the chapter directory are obtained and the extraction yields
  no image address, \<open>download_chapter\<close> returns \<open>False\<close>, leaves every file as it
  was and makes no HTTP request.
\<close>

theorem no_images_no_files:
  assumes "chrome_result E = Inr d" and "configure_result E = None"
    and "makedirs_result E (chapter_dir_of E s n) = None"
    and "fst (get_chapter_images E u (s\<lparr>driver := Some d\<rparr>)) = Inr []"
  shows "fst (download_chapter E u n s) = Inr False
       \<and> files (snd (download_chapter E u n s)) = files s
       \<and> filter is_attempt (trace (snd (download_chapter E u n s))) = filter is_attempt (trace s)"
proof -
  have t: "download_chapter_try E u n s = (Inr False, st_scraped E u n d s)"
    using download_chapter_try_ready [OF assms] by simp
  have tr: "trace (st_scraped E u n d s) =
      trace s @ [ChromeLaunched d, DriverCreated d, Makedirs (chapter_dir_of E s n), PageGet u]
        @ (if navigate_result E u = None \<and> wait_result E = None then [Sleep 3] else [])"
    by (simp add: st_scraped_def get_chapter_images_snd get_chapter_images_try_def Let_def
          split: option.splits sum.splits)
  show ?thesis
    by (simp add: download_chapter_state t quit_driver_trace tr)
qed

theorem no_images_no_files_witness:
  "fst (download_chapter env_no_images ''http://x'' (Some ''ch1'') sample_state) = Inr False
   \<and> files (snd (download_chapter env_no_images ''http://x'' (Some ''ch1'') sample_state)) = Map.empty
   \<and> filter is_attempt (trace (snd (download_chapter env_no_images ''http://x'' (Some ''ch1'') sample_state))) = []"
proof -
  have g: "fst (get_chapter_images env_no_images ''http://x'' (sample_state\<lparr>driver := Some 7\<rparr>)) = Inr []"
    by (simp add: get_chapter_images_fst get_chapter_images_try_def Let_def sample_fields)
  have m: "makedirs_result env_no_images (chapter_dir_of env_no_images sample_state (Some ''ch1'')) = None"
    by (simp add: sample_fields)
  show ?thesis
    using no_images_no_files [OF sample_fields(1,2) m g]
    by (simp add: sample_state_def)
qed

text \<open>
  C9, as stated, has the chapter directory created before the session is acquired.
  The source calls \<open>create_driver\<close> first: when it raises, the directory has not
  been created.
\<close>

theorem directory_before_session_counterexample:
  "fst (download_chapter env_chrome_fails ''http://x'' (Some ''ch1'') sample_state) = Inr False
   \<and> chapter_dir_of env_chrome_fails sample_state (Some ''ch1'') = ''/downloads/ch1''
   \<and> ''/downloads/ch1'' \<notin> dirs (snd (download_chapter env_chrome_fails ''http://x'' (Some ''ch1'') sample_state))"
  by (simp add: download_chapter_def download_chapter_try_def create_driver_def quit_driver_def
        env_chrome_fails_def env_ok_def sample_state_def emit_def sleep_def Let_def
        chapter_dir_of_def resolve_name_def truthy_def os_path_join_def)

text \<open>
  C9, amended. \<open>download_chapter\<close> acquires the session first and only then
  resolves the chapter name (the one supplied, or one made from the current time) and
  creates its directory. If \<open>create_driver\<close> raises, the call returns \<open>False\<close>
  with no \<open>makedirs\<close> call, no directory created and no file changed; if it returns
  a session, the launch and the acquisition precede the \<open>makedirs\<close> call in the
  trace, and the chapter directory exists afterwards whenever \<open>makedirs\<close> succeeds.
\<close>

theorem session_before_directory:
  "(\<forall>e. fst (create_driver E s) = Inl e \<longrightarrow>
        fst (download_chapter E u n s) = Inr False
      \<and> dirs (snd (download_chapter E u n s)) = dirs s
      \<and> files (snd (download_chapter E u n s)) = files s
      \<and> filter is_makedirs (trace (snd (download_chapter E u n s))) = filter is_makedirs (trace s))
   \<and> (\<forall>d. fst (create_driver E s) = Inr d \<longrightarrow>
        (\<exists>rest. trace (snd (download_chapter E u n s)) =
           trace s @ [ChromeLaunched d, DriverCreated d, Makedirs (chapter_dir_of E s n)] @ rest)
      \<and> (makedirs_result E (chapter_dir_of E s n) = None \<longrightarrow>
           chapter_dir_of E s n \<in> dirs (snd (download_chapter E u n s))))"
proof (intro conjI allI impI)
  fix e assume f: "fst (create_driver E s) = Inl e"
  have t: "download_chapter_try E u n s = (Inl e, snd (create_driver E s))"
    by (rule download_chapter_try_no_session [OF f])
  from create_driver_cases [of E s] f
  have c: "snd (create_driver E s) = s \<or> (\<exists>d. snd (create_driver E s) = emit (ChromeLaunched d) s)"
    by auto
  show "fst (download_chapter E u n s) = Inr False"
    by (simp add: download_chapter_state t)
  show "dirs (snd (download_chapter E u n s)) = dirs s"
    using c by (auto simp: download_chapter_state t)
  show "files (snd (download_chapter E u n s)) = files s"
    using c by (auto simp: download_chapter_state t)
  show "filter is_makedirs (trace (snd (download_chapter E u n s))) = filter is_makedirs (trace s)"
    using c by (auto simp: download_chapter_state t quit_driver_trace split: option.splits)
next
  fix d assume f: "fst (create_driver E s) = Inr d"
  define T where "T = snd (download_chapter_try E u n s)"
  consider
    (b) e where "makedirs_result E (chapter_dir_of E s n) = Some e" "T = st_directory E n d s"
  | (c) "makedirs_result E (chapter_dir_of E s n) = None" "T = st_scraped E u n d s"
  | (d) urls where "makedirs_result E (chapter_dir_of E s n) = None"
      "T = snd (download_pages E (chapter_dir_of E s n) (enumerate 1 urls) 0 (st_scraped E u n d s))"
    using download_chapter_try_shape [of E s u n] f unfolding T_def by auto
  then have "(\<exists>ev. trace T = trace s @ [ChromeLaunched d, DriverCreated d, Makedirs (chapter_dir_of E s n)] @ ev)
      \<and> (makedirs_result E (chapter_dir_of E s n) = None \<longrightarrow> chapter_dir_of E s n \<in> dirs T)"
  proof cases
    case b
    then show ?thesis by simp
  next
    case c
    then show ?thesis using st_scraped_trace [of E u n d s] by auto
  next
    case d
    obtain ev where ev: "trace (st_scraped E u n d s) =
        trace s @ [ChromeLaunched d, DriverCreated d, Makedirs (chapter_dir_of E s n)] @ ev"
      using st_scraped_trace by blast
    obtain ev' where ev': "trace T = trace (st_scraped E u n d s) @ ev'"
      and di: "dirs T = dirs (st_scraped E u n d s)"
      using download_pages_frame [of E "chapter_dir_of E s n" "enumerate 1 urls" 0 "st_scraped E u n d s"]
      unfolding d(2) by blast
    have "trace T = trace s @ [ChromeLaunched d, DriverCreated d, Makedirs (chapter_dir_of E s n)] @ (ev @ ev')"
      by (simp add: ev' ev)
    then show ?thesis using di d(1) by auto
  qed
  then have di: "makedirs_result E (chapter_dir_of E s n) = None \<longrightarrow> chapter_dir_of E s n \<in> dirs T"
    and "\<exists>ev. trace T = trace s @ [ChromeLaunched d, DriverCreated d, Makedirs (chapter_dir_of E s n)] @ ev"
    by simp_all
  then obtain ev where ev: "trace T = trace s @ [ChromeLaunched d, DriverCreated d, Makedirs (chapter_dir_of E s n)] @ ev"
    by (elim exE)
  have "trace (snd (download_chapter E u n s)) =
      trace s @ [ChromeLaunched d, DriverCreated d, Makedirs (chapter_dir_of E s n)]
        @ (ev @ QuitDriverCalled # (case driver T of None \<Rightarrow> [] | Some d \<Rightarrow> [DriverQuit d]) @ [Sleep 5])"
    by (simp add: download_chapter_state quit_driver_trace T_def [symmetric] ev)
  then show "\<exists>rest. trace (snd (download_chapter E u n s)) =
           trace s @ [ChromeLaunched d, DriverCreated d, Makedirs (chapter_dir_of E s n)] @ rest"
    by blast
  show "chapter_dir_of E s n \<in> dirs (snd (download_chapter E u n s))"
    if "makedirs_result E (chapter_dir_of E s n) = None"
    using di that by (simp add: download_chapter_state T_def)
qed

theorem session_before_directory_witness:
  "fst (download_chapter env_chrome_fails ''http://x'' (Some ''ch1'') sample_state) = Inr False
   \<and> dirs (snd (download_chapter env_chrome_fails ''http://x'' (Some ''ch1'') sample_state)) = {''/downloads''}
   \<and> ''/downloads/ch1'' \<in> dirs (snd (download_chapter env_no_images ''http://x'' (Some ''ch1'') sample_state))
   \<and> take 3 (trace (snd (download_chapter env_no_images ''http://x'' (Some ''ch1'') sample_state)))
       = [ChromeLaunched 7, DriverCreated 7, Makedirs ''/downloads/ch1'']"
proof -
  have f: "fst (create_driver env_chrome_fails sample_state) = Inl WebDriverException"
    by (simp add: create_driver_def env_chrome_fails_def)
  have a: "fst (download_chapter env_chrome_fails ''http://x'' (Some ''ch1'') sample_state) = Inr False
      \<and> dirs (snd (download_chapter env_chrome_fails ''http://x'' (Some ''ch1'') sample_state)) = {''/downloads''}"
    using session_before_directory [of env_chrome_fails sample_state "''http://x''" "Some ''ch1''"] f
    by (simp add: sample_state_def)
  have c: "fst (create_driver env_no_images sample_state) = Inr 7"
    by (simp add: create_driver_ok sample_fields)
  have m: "makedirs_result env_no_images ''/downloads/ch1'' = None"
    by (simp add: sample_fields)
  have b: "''/downloads/ch1'' \<in> dirs (snd (download_chapter env_no_images ''http://x'' (Some ''ch1'') sample_state))
      \<and> (\<exists>rest. trace (snd (download_chapter env_no_images ''http://x'' (Some ''ch1'') sample_state)) =
              [ChromeLaunched 7, DriverCreated 7, Makedirs ''/downloads/ch1''] @ rest)"
    using session_before_directory [of env_no_images sample_state "''http://x''" "Some ''ch1''"] c m
    by (simp add: sample_chapter_dir sample_state_def [THEN arg_cong [of _ _ trace]])
  then obtain rest where
    "trace (snd (download_chapter env_no_images ''http://x'' (Some ''ch1'') sample_state)) =
       [ChromeLaunched 7, DriverCreated 7, Makedirs ''/downloads/ch1''] @ rest"
    by (elim conjE exE)
  then have "take 3 (trace (snd (download_chapter env_no_images ''http://x'' (Some ''ch1'') sample_state)))
       = [ChromeLaunched 7, DriverCreated 7, Makedirs ''/downloads/ch1'']"
    by simp
  with a b show ?thesis by simp
qed





text \<open>
  C6. When the session and the directory are obtained, the extraction yields
  \<open>N \<ge> 1\<close> addresses and every first request completes, \<open>download_chapter\<close>
  returns \<open>True\<close> and adds to the files exactly the \<open>N\<close> distinct paths
  \<open>page_{i:03d}.jpg\<close> of the chapter directory, for \<open>i\<close> from 1 to \<open>N\<close>; the file
  of ordinal \<open>i\<close> holds the body served for the \<open>i\<close>-th address in extraction order.
  The ordinal is padded with zeros to three digits, starting at \<open>001\<close>.
\<close>

theorem all_pages_downloaded:
  assumes "chrome_result E = Inr d" and "configure_result E = None"
    and "makedirs_result E (chapter_dir_of E s n) = None"
    and "fst (get_chapter_images E u (s\<lparr>driver := Some d\<rparr>)) = Inr urls" and "urls \<noteq> []"
    and "\<forall>i<length urls. \<exists>b. fetch E (urls ! i) (page_path (chapter_dir_of E s n) (Suc i)) 0 = Written b"
  shows "fst (download_chapter E u n s) = Inr True
       \<and> dom (files (snd (download_chapter E u n s))) =
           dom (files s) \<union> page_path (chapter_dir_of E s n) ` {1..length urls}
       \<and> card (page_path (chapter_dir_of E s n) ` {1..length urls}) = length urls
       \<and> (\<forall>i<length urls.
             files (snd (download_chapter E u n s)) (page_path (chapter_dir_of E s n) (Suc i))
               = written_bytes (fetch E (urls ! i) (page_path (chapter_dir_of E s n) (Suc i)) 0))
       \<and> (\<forall>i. page_path (chapter_dir_of E s n) i
               = os_path_join (chapter_dir_of E s n) (''page_'' @ format_03d i @ ''.jpg''))
       \<and> format_03d 1 = ''001''
       \<and> (\<forall>i<1000. length (format_03d i) = 3)"
proof -
  define dir where "dir = chapter_dir_of E s n"
  define ps where "ps = enumerate 1 urls"
  define S where "S = snd (download_pages E dir ps 0 (st_scraped E u n d s))"
  have w: "\<forall>(i, v)\<in>set ps. \<exists>b. fetch E v (page_path dir i) 0 = Written b"
    using assms(6) unfolding ps_def dir_def by (auto simp: enumerate_member_iff simp del: One_nat_def)
  have ok: "page_ok E dir iv" if "iv \<in> set ps" for iv
    using w that by (cases iv) (auto simp: page_ok_def)
  have all: "filter (page_ok E dir) ps = ps"
    using ok by (simp add: filter_id_conv)
  have len: "length ps = length urls" by (simp add: ps_def)
  have t: "download_chapter_try E u n s = (Inr True, S)"
    using download_chapter_try_ready [OF assms(1-4)] assms(5)
    by (simp add: dir_def [symmetric] ps_def [symmetric] all len S_def del: One_nat_def)
  have fS: "files (snd (download_chapter E u n s)) = files S"
    by (simp add: download_chapter_state t)
  have dist: "distinct (map fst ps)" by (simp add: ps_def map_fst_enumerate)
  have content: "\<forall>(i, v)\<in>set ps. files S (page_path dir i) = written_bytes (fetch E v (page_path dir i) 0)"
    unfolding S_def by (rule download_pages_content [OF dist w])
  have other: "\<forall>q. q \<notin> page_path dir ` fst ` set ps \<longrightarrow> files S q = files s q"
    using download_pages_frame [of E dir ps 0 "st_scraped E u n d s"] by (simp add: S_def)
  have idx: "fst ` set ps = {1..length urls}" unfolding ps_def by (rule enumerate_indices)
  have a: "fst (download_chapter E u n s) = Inr True"
    by (simp add: download_chapter_state t)
  have c: "\<forall>i<length urls. files S (page_path dir (Suc i)) = written_bytes (fetch E (urls ! i) (page_path dir (Suc i)) 0)"
    using content enumerate_member [of _ urls] unfolding ps_def by fastforce
  have inS: "q \<in> dom (files S)" if "q \<in> page_path dir ` {1..length urls}" for q
  proof -
    from that obtain j where j: "q = page_path dir j" "1 \<le> j" "j \<le> length urls" by auto
    then obtain i where i: "j = Suc i" "i < length urls" by (cases j) auto
    from assms(6) i obtain b where "fetch E (urls ! i) (page_path dir (Suc i)) 0 = Written b"
      unfolding dir_def by blast
    with c i have "files S (page_path dir (Suc i)) = Some b" by simp
    then show ?thesis by (auto simp: j i)
  qed
  have b: "dom (files S) = dom (files s) \<union> page_path dir ` {1..length urls}"
  proof (intro set_eqI iffI)
    fix q assume q: "q \<in> dom (files S)"
    show "q \<in> dom (files s) \<union> page_path dir ` {1..length urls}"
    proof (cases "q \<in> page_path dir ` {1..length urls}")
      case True then show ?thesis by simp
    next
      case False
      then have "files S q = files s q" using other idx by simp
      then show ?thesis using q by (auto simp: dom_def)
    qed
  next
    fix q assume q: "q \<in> dom (files s) \<union> page_path dir ` {1..length urls}"
    show "q \<in> dom (files S)"
    proof (cases "q \<in> page_path dir ` {1..length urls}")
      case True then show ?thesis by (rule inS)
    next
      case False
      then have "files S q = files s q" using other idx by simp
      then show ?thesis using q False by (auto simp: dom_def)
    qed
  qed
  have cd: "card (page_path dir ` {1..length urls}) = length urls"
    using card_pages [OF dist, of dir] by (simp add: idx len)
  have nm: "\<forall>i. page_path dir i = os_path_join dir (''page_'' @ format_03d i @ ''.jpg'')"
    by (simp add: page_path_def page_filename_def)
  have f1: "format_03d 1 = ''001''" by code_simp
  have f3: "\<forall>i<1000. length (format_03d i) = 3" by (simp add: format_03d_length)
  show ?thesis
    unfolding fS dir_def [symmetric] using a b cd c nm f1 f3 by blast
qed

theorem all_pages_downloaded_witness:
  "fst (download_chapter env_ok ''http://x'' (Some ''ch1'') sample_state) = Inr True
   \<and> dom (files (snd (download_chapter env_ok ''http://x'' (Some ''ch1'') sample_state))) =
       {''/downloads/ch1/page_001.jpg'', ''/downloads/ch1/page_002.jpg'',
        ''/downloads/ch1/page_003.jpg'', ''/downloads/ch1/page_004.jpg'',
        ''/downloads/ch1/page_005.jpg''}
   \<and> files (snd (download_chapter env_ok ''http://x'' (Some ''ch1'') sample_state))
        ''/downloads/ch1/page_001.jpg'' = Some (''image of '' @ sample_src 1)"
proof -
  define urls where "urls = [sample_src 1, sample_src 2, sample_src 3, sample_src 4, sample_src 5]"
  define S where "S = snd (download_chapter env_ok ''http://x'' (Some ''ch1'') sample_state)"
  have e: "chrome_result env_ok = Inr 7" "configure_result env_ok = None"
    "navigate_result env_ok = (\<lambda>u. None)" "wait_result env_ok = None"
    by (simp_all add: env_ok_def)
  have d: "chapter_dir_of env_ok sample_state (Some ''ch1'') = ''/downloads/ch1''"
    by (rule sample_chapter_dir)
  have m: "makedirs_result env_ok (chapter_dir_of env_ok sample_state (Some ''ch1'')) = None"
    by (simp add: env_ok_def)
  have x: "fst (get_chapter_images env_ok ''http://x'' (sample_state\<lparr>driver := Some 7\<rparr>)) = Inr urls"
    unfolding urls_def by (rule sample_extraction [OF e(1) e(3) e(4) refl refl])
  have ne: "urls \<noteq> []"
    by (simp add: urls_def)
  have w: "\<forall>i<length urls. \<exists>b. fetch env_ok (urls ! i)
             (page_path (chapter_dir_of env_ok sample_state (Some ''ch1'')) (Suc i)) 0 = Written b"
    by (simp add: env_ok_def)
  note T = all_pages_downloaded [OF e(1) e(2) m x ne w, folded S_def, unfolded d]
  have a: "fst (download_chapter env_ok ''http://x'' (Some ''ch1'') sample_state) = Inr True"
    using T by (elim conjE)
  have b: "dom (files S) = dom (files sample_state) \<union> page_path ''/downloads/ch1'' ` {1..length urls}"
    using T by (elim conjE)
  have c: "\<forall>i<length urls. files S (page_path ''/downloads/ch1'' (Suc i))
             = written_bytes (fetch env_ok (urls ! i) (page_path ''/downloads/ch1'' (Suc i)) 0)"
    using T by (elim conjE)
  have len: "length urls = 5"
    by (simp add: urls_def)
  have five: "{1..5::nat} = {1, 2, 3, 4, 5}"
    by auto
  have b': "dom (files S) =
       {''/downloads/ch1/page_001.jpg'', ''/downloads/ch1/page_002.jpg'',
        ''/downloads/ch1/page_003.jpg'', ''/downloads/ch1/page_004.jpg'',
        ''/downloads/ch1/page_005.jpg''}"
    unfolding b len five image_insert image_empty sample_pages
    by (simp add: sample_state_def)
  have "0 < length urls"
    by (simp add: len)
  then have "files S (page_path ''/downloads/ch1'' (Suc 0))
          = written_bytes (fetch env_ok (urls ! 0) (page_path ''/downloads/ch1'' (Suc 0)) 0)"
    by (rule c [rule_format])
  then have c1: "files S ''/downloads/ch1/page_001.jpg'' = Some (''image of '' @ sample_src 1)"
    by (simp add: urls_def env_ok_def)
  show ?thesis
    using a b' c1 unfolding S_def by simp
qed

end
